theory Spec2Isabelle
  imports Complex_Main "HOL-Library.Log_Nat" "HOL-Library.Multiset"
begin

section \<open>Numbers, pins and the board\<close>

text \<open>
  The driver is MakeCode TypeScript: every value of type \<open>number\<close> is modelled as a
  real. In the first model of the code arithmetic is exact; where the rounding of the
  device's doubles decides a property, the code is modelled again with every result
  rounded (the functions whose names end in 64). NaN and the infinities are in neither
  model.
\<close>

type_synonym number = real

text \<open>
  \<open>x | 0\<close>: the operand is truncated towards zero, reduced modulo \<open>2 ^ 32\<close> and read
  as a signed 32-bit integer.
\<close>

definition toInt32 :: "number \<Rightarrow> int" where
  "toInt32 x =
     (let t = (if x < 0 then - \<lfloor>- x\<rfloor> else \<lfloor>x\<rfloor>);
          m = t mod 2 ^ 32
      in if m \<ge> 2 ^ 31 then m - 2 ^ 32 else m)"

definition bor0 :: "number \<Rightarrow> number" where
  "bor0 x = of_int (toInt32 x)"

datatype Unit = Centimeters | Inches

datatype DigitalPin = P0 | P1 | P2 | PinOther nat

datatype PulseValue = High | Low

datatype PinPullMode = PullNone | PullDown | PullUp

text \<open>
  What the driver does to the board, in order. \<open>EvHandler h cm\<close> is a call of the
  handler registered as \<open>h\<close> with argument \<open>cm\<close>; what the handler does in turn is
  the caller's code and is not modelled.
\<close>

datatype event =
    EvSetPull DigitalPin PinPullMode
  | EvWrite DigitalPin nat
  | EvWaitMicros number
  | EvPulseIn DigitalPin PulseValue number
  | EvPause number
  | EvHandler nat number

text \<open>
  The board: \<open>pulses b k\<close> is the duration that the \<open>k\<close>-th call of \<open>pins.pulseIn\<close>
  returns, \<open>served b\<close> counts the calls made so far, and \<open>trace b\<close> lists the events.
\<close>

record board =
  pulses :: "nat \<Rightarrow> number"
  served :: nat
  trace :: "event list"

definition setPull :: "DigitalPin \<Rightarrow> PinPullMode \<Rightarrow> 'a board_scheme \<Rightarrow> 'a board_scheme" where
  "setPull p m b = b\<lparr>trace := trace b @ [EvSetPull p m]\<rparr>"

definition digitalWritePin :: "DigitalPin \<Rightarrow> nat \<Rightarrow> 'a board_scheme \<Rightarrow> 'a board_scheme" where
  "digitalWritePin p v b = b\<lparr>trace := trace b @ [EvWrite p v]\<rparr>"

definition waitMicros :: "number \<Rightarrow> 'a board_scheme \<Rightarrow> 'a board_scheme" where
  "waitMicros us b = b\<lparr>trace := trace b @ [EvWaitMicros us]\<rparr>"

definition pause :: "number \<Rightarrow> 'a board_scheme \<Rightarrow> 'a board_scheme" where
  "pause ms b = b\<lparr>trace := trace b @ [EvPause ms]\<rparr>"

definition callHandler :: "nat \<Rightarrow> number \<Rightarrow> 'a board_scheme \<Rightarrow> 'a board_scheme" where
  "callHandler h cm b = b\<lparr>trace := trace b @ [EvHandler h cm]\<rparr>"

definition pulseIn ::
  "DigitalPin \<Rightarrow> PulseValue \<Rightarrow> number \<Rightarrow> 'a board_scheme \<Rightarrow> number \<times> 'a board_scheme" where
  "pulseIn p v maxDuration b =
     (pulses b (served b),
      b\<lparr>served := Suc (served b), trace := trace b @ [EvPulseIn p v maxDuration]\<rparr>)"

section \<open>Namespace ultrasonic\<close>

text \<open>
  The module-level variables \<open>_trig\<close>, \<open>_echo\<close>, \<open>_maxUs\<close> and \<open>_polling\<close>, and the
  background tasks started so far, each with its threshold and handler.
\<close>

record ultrasonic = board +
  trig :: DigitalPin
  echo :: DigitalPin
  maxUs :: number
  polling :: bool
  tasks :: "(number \<times> nat) list"

definition ultrasonic_init :: "(nat \<Rightarrow> number) \<Rightarrow> ultrasonic" where
  "ultrasonic_init ps =
     \<lparr>pulses = ps, served = 0, trace = [],
      trig = P1, echo = P0, maxUs = 25000, polling = False, tasks = []\<rparr>"

definition setPins :: "DigitalPin \<Rightarrow> DigitalPin \<Rightarrow> ultrasonic \<Rightarrow> ultrasonic" where
  "setPins t e s =
     (let s1 = s\<lparr>trig := t, echo := e\<rparr>;
          s2 = setPull (echo s1) PullNone s1;
          s3 = digitalWritePin (trig s2) 0 s2
      in waitMicros 5 s3)"

definition setMaxMicros :: "number \<Rightarrow> ultrasonic \<Rightarrow> ultrasonic" where
  "setMaxMicros maxMicros s = s\<lparr>maxUs := max 3000 (min 40000 (bor0 maxMicros))\<rparr>"

definition measureOnceCm :: "ultrasonic \<Rightarrow> number \<times> ultrasonic" where
  "measureOnceCm s =
     (let s1 = digitalWritePin (trig s) 0 s;
          s2 = waitMicros 2 s1;
          s3 = digitalWritePin (trig s2) 1 s2;
          s4 = waitMicros 10 s3;
          s5 = digitalWritePin (trig s4) 0 s4;
          r = pulseIn (echo s5) High (maxUs s5) s5;
          d = fst r
      in if d \<le> 0 then (0, snd r) else (d / 58, snd r))"

text \<open>
  The loop of \<open>read\<close>: \<open>i\<close> counts up from 0 while \<open>i < samples\<close>; \<open>sumCm\<close>
  (the source's \<open>sum\<close>) and \<open>cnt\<close> take only the measurements above 0; every round ends
  with a pause of 10 ms.
\<close>

function read_loop ::
  "number \<Rightarrow> nat \<Rightarrow> number \<Rightarrow> nat \<Rightarrow> ultrasonic \<Rightarrow> (number \<times> nat) \<times> ultrasonic" where
  "read_loop samples i sumCm cnt s =
     (if real i < samples then
        (let r = measureOnceCm s; cm = fst r
         in read_loop samples (Suc i)
              (if cm > 0 then sumCm + cm else sumCm)
              (if cm > 0 then Suc cnt else cnt)
              (pause 10 (snd r)))
      else ((sumCm, cnt), s))"
  by pat_completeness auto
termination
  by (relation "measure (\<lambda>(samples, i, sumCm, cnt, s). nat \<lceil>samples\<rceil> - i)")
     (auto intro!: diff_less_mono2, linarith)

declare read_loop.simps [simp del]

definition read :: "Unit \<Rightarrow> number \<Rightarrow> ultrasonic \<Rightarrow> number \<times> ultrasonic" where
  "read unit samples0 s =
     (let samples = max 1 (min 10 (bor0 samples0));
          r = read_loop samples 0 0 0 s;
          sumCm = fst (fst r); cnt = snd (fst r);
          cmAvg = (if cnt > 0 then sumCm / real cnt else 0)
      in if unit = Inches then (cmAvg / 2.54, snd r) else (cmAvg, snd r))"

definition distanceCm :: "ultrasonic \<Rightarrow> number \<times> ultrasonic" where
  "distanceCm s = read Centimeters 1 s"

text \<open>
  \<open>onDistanceLessThan\<close> starts a background task that runs \<open>while (true)\<close>. One round
  of its body is \<open>watch_round\<close>; \<open>watch n\<close> is the first \<open>n\<close> rounds of a task that is
  never interleaved with another one. The loop never ends, so only its finite prefixes
  exist in the model. Both branches of the \<open>if (_polling)\<close> start the same loop.
\<close>

definition watch_round :: "number \<Rightarrow> nat \<Rightarrow> ultrasonic \<Rightarrow> ultrasonic" where
  "watch_round threshold handler s =
     (let r = distanceCm s; cm = fst r;
          s1 = (if cm > 0 \<and> cm < threshold then callHandler handler cm (snd r) else snd r)
      in pause 50 s1)"

fun watch :: "nat \<Rightarrow> number \<Rightarrow> nat \<Rightarrow> ultrasonic \<Rightarrow> ultrasonic" where
  "watch 0 threshold handler s = s"
| "watch (Suc n) threshold handler s = watch n threshold handler (watch_round threshold handler s)"

definition inBackground :: "number \<times> nat \<Rightarrow> ultrasonic \<Rightarrow> ultrasonic" where
  "inBackground task s = s\<lparr>tasks := tasks s @ [task]\<rparr>"

definition onDistanceLessThan :: "number \<Rightarrow> nat \<Rightarrow> ultrasonic \<Rightarrow> ultrasonic" where
  "onDistanceLessThan threshold0 handler s =
     (let threshold = max 2 (min 400 (bor0 threshold0))
      in if polling s then inBackground (threshold, handler) s
         else inBackground (threshold, handler) (s\<lparr>polling := True\<rparr>))"

section \<open>Namespace ultrasonic33\<close>

text \<open>The module-level variables \<open>_trig\<close>, \<open>_echo\<close>, \<open>_maxUs\<close> and \<open>_settleUs\<close>.\<close>

record ultrasonic33 = board +
  trig33 :: DigitalPin
  echo33 :: DigitalPin
  maxUs33 :: number
  settleUs33 :: number

definition ultrasonic33_init :: "(nat \<Rightarrow> number) \<Rightarrow> ultrasonic33" where
  "ultrasonic33_init ps =
     \<lparr>pulses = ps, served = 0, trace = [],
      trig33 = P1, echo33 = P2, maxUs33 = 40000, settleUs33 = 600\<rparr>"

definition setPins33 :: "DigitalPin \<Rightarrow> DigitalPin \<Rightarrow> ultrasonic33 \<Rightarrow> ultrasonic33" where
  "setPins33 t e s =
     (let s1 = s\<lparr>trig33 := t, echo33 := e\<rparr>;
          s2 = setPull (echo33 s1) PullNone s1;
          s3 = digitalWritePin (trig33 s2) 0 s2
      in pause 10 s3)"

definition setTiming :: "number \<Rightarrow> number \<Rightarrow> ultrasonic33 \<Rightarrow> ultrasonic33" where
  "setTiming maxMicros settleMicros s =
     s\<lparr>maxUs33 := max 15000 (min 60000 (bor0 maxMicros)),
       settleUs33 := max 100 (min 2000 (bor0 settleMicros))\<rparr>"

text \<open>Attempt 3 and, when it fails too, attempt 4: the quick re-trigger.\<close>

definition retrigger :: "ultrasonic33 \<Rightarrow> number \<times> ultrasonic33" where
  "retrigger s =
     (let s1 = waitMicros 200 s;
          s2 = digitalWritePin (trig33 s1) 1 s1;
          s3 = waitMicros 20 s2;
          s4 = digitalWritePin (trig33 s3) 0 s3;
          s5 = waitMicros (settleUs33 s4) s4;
          r = pulseIn (echo33 s5) High (maxUs33 s5) s5
      in if fst r \<le> 0 then pulseIn (echo33 (snd r)) Low (maxUs33 (snd r)) (snd r) else r)"

definition measureOnceCmRobust :: "ultrasonic33 \<Rightarrow> number \<times> ultrasonic33" where
  "measureOnceCmRobust s =
     (let s1 = digitalWritePin (trig33 s) 0 s;
          s2 = waitMicros 4 s1;
          s3 = digitalWritePin (trig33 s2) 1 s2;
          s4 = waitMicros 30 s3;
          s5 = digitalWritePin (trig33 s4) 0 s4;
          s6 = waitMicros (settleUs33 s5) s5;
          r1 = pulseIn (echo33 s6) High (maxUs33 s6) s6;
          r2 = (if fst r1 \<le> 0 then pulseIn (echo33 (snd r1)) Low (maxUs33 (snd r1)) (snd r1)
                else r1);
          r3 = (if fst r2 \<le> 0 then retrigger (snd r2) else r2);
          dur = fst r3
      in if dur \<le> 0 then (0, snd r3) else (dur / 58, snd r3))"

text \<open>
  The loop of \<open>distance\<close>: \<open>samples\<close> is used as it was passed; a measurement above 0
  is pushed to the end of \<open>vals\<close>; every round ends with a pause of 20 ms.
\<close>

function distance_loop ::
  "number \<Rightarrow> nat \<Rightarrow> number list \<Rightarrow> ultrasonic33 \<Rightarrow> number list \<times> ultrasonic33" where
  "distance_loop samples i vals s =
     (if real i < samples then
        (let r = measureOnceCmRobust s; cm = fst r
         in distance_loop samples (Suc i)
              (if cm > 0 then vals @ [cm] else vals)
              (pause 20 (snd r)))
      else (vals, s))"
  by pat_completeness auto
termination
  by (relation "measure (\<lambda>(samples, i, vals, s). nat \<lceil>samples\<rceil> - i)")
     (auto intro!: diff_less_mono2, linarith)

declare distance_loop.simps [simp del]

text \<open>
  \<open>vals.sort((a, b) => a - b)\<close> puts the numbers in ascending order; \<open>length >> 1\<close>
  is \<open>drop_bit 1\<close> of the length.
\<close>

definition distance :: "Unit \<Rightarrow> number \<Rightarrow> ultrasonic33 \<Rightarrow> number \<times> ultrasonic33" where
  "distance unit samples s =
     (let r = distance_loop samples 0 [] s; vals = fst r
      in if length vals = 0 then (0, snd r)
         else (let sorted_vals = sort vals;
                   med = sorted_vals ! drop_bit 1 (length sorted_vals)
               in (if unit = Inches then med / 2.54 else med, snd r)))"

section \<open>The same code in double arithmetic\<close>

text \<open>
  Where the rounding of the device's numbers matters, the code is modelled a second
  time with every arithmetic result rounded to a double: \<open>fl x\<close> is the binary64
  number nearest to \<open>x\<close>, ties to the even significand, subnormal numbers included.
  \<open>expo x\<close> is the exponent of the binade of \<open>x\<close>, at least -1022, and the doubles
  around \<open>x\<close> are the multiples of \<open>2 powi (expo x - 52)\<close>. Overflow to infinity is
  not modelled: \<open>fl\<close> is what the device computes for results below \<open>2 ^ 1024\<close>.
  \<open>c254\<close> is the double that the literal \<open>2.54\<close> denotes. Durations, counters and
  the constant 58 are integers and exact.
\<close>

definition roundTiesToEven :: "real \<Rightarrow> int" where
  "roundTiesToEven x =
     (let f = \<lfloor>x\<rfloor>; r = x - of_int f
      in if r < 1 / 2 then f else if 1 / 2 < r then f + 1 else if even f then f else f + 1)"

definition expo :: "real \<Rightarrow> int" where
  "expo x = max (bitlen \<lfloor>\<bar>x\<bar> * 2 ^ 1074\<rfloor> - 1075) (- 1022)"

definition fl :: "real \<Rightarrow> real" where
  "fl x = (let q = 2 powi (expo x - 52) in of_int (roundTiesToEven (x / q)) * q)"

definition c254 :: number where
  "c254 = fl 2.54"

definition measureOnceCm64 :: "ultrasonic \<Rightarrow> number \<times> ultrasonic" where
  "measureOnceCm64 s =
     (let s1 = digitalWritePin (trig s) 0 s;
          s2 = waitMicros 2 s1;
          s3 = digitalWritePin (trig s2) 1 s2;
          s4 = waitMicros 10 s3;
          s5 = digitalWritePin (trig s4) 0 s4;
          r = pulseIn (echo s5) High (maxUs s5) s5;
          d = fst r
      in if d \<le> 0 then (0, snd r) else (fl (d / 58), snd r))"

function read_loop64 ::
  "number \<Rightarrow> nat \<Rightarrow> number \<Rightarrow> nat \<Rightarrow> ultrasonic \<Rightarrow> (number \<times> nat) \<times> ultrasonic" where
  "read_loop64 samples i sumCm cnt s =
     (if real i < samples then
        (let r = measureOnceCm64 s; cm = fst r
         in read_loop64 samples (Suc i)
              (if cm > 0 then fl (sumCm + cm) else sumCm)
              (if cm > 0 then Suc cnt else cnt)
              (pause 10 (snd r)))
      else ((sumCm, cnt), s))"
  by pat_completeness auto
termination
  by (relation "measure (\<lambda>(samples, i, sumCm, cnt, s). nat \<lceil>samples\<rceil> - i)")
     (auto intro!: diff_less_mono2, linarith)

declare read_loop64.simps [simp del]

definition read64 :: "Unit \<Rightarrow> number \<Rightarrow> ultrasonic \<Rightarrow> number \<times> ultrasonic" where
  "read64 unit samples0 s =
     (let samples = max 1 (min 10 (bor0 samples0));
          r = read_loop64 samples 0 0 0 s;
          sumCm = fst (fst r); cnt = snd (fst r);
          cmAvg = (if cnt > 0 then fl (sumCm / real cnt) else 0)
      in if unit = Inches then (fl (cmAvg / c254), snd r) else (cmAvg, snd r))"

definition measureOnceCmRobust64 :: "ultrasonic33 \<Rightarrow> number \<times> ultrasonic33" where
  "measureOnceCmRobust64 s =
     (let s1 = digitalWritePin (trig33 s) 0 s;
          s2 = waitMicros 4 s1;
          s3 = digitalWritePin (trig33 s2) 1 s2;
          s4 = waitMicros 30 s3;
          s5 = digitalWritePin (trig33 s4) 0 s4;
          s6 = waitMicros (settleUs33 s5) s5;
          r1 = pulseIn (echo33 s6) High (maxUs33 s6) s6;
          r2 = (if fst r1 \<le> 0 then pulseIn (echo33 (snd r1)) Low (maxUs33 (snd r1)) (snd r1)
                else r1);
          r3 = (if fst r2 \<le> 0 then retrigger (snd r2) else r2);
          dur = fst r3
      in if dur \<le> 0 then (0, snd r3) else (fl (dur / 58), snd r3))"

function distance_loop64 ::
  "number \<Rightarrow> nat \<Rightarrow> number list \<Rightarrow> ultrasonic33 \<Rightarrow> number list \<times> ultrasonic33" where
  "distance_loop64 samples i vals s =
     (if real i < samples then
        (let r = measureOnceCmRobust64 s; cm = fst r
         in distance_loop64 samples (Suc i)
              (if cm > 0 then vals @ [cm] else vals)
              (pause 20 (snd r)))
      else (vals, s))"
  by pat_completeness auto
termination
  by (relation "measure (\<lambda>(samples, i, vals, s). nat \<lceil>samples\<rceil> - i)")
     (auto intro!: diff_less_mono2, linarith)

declare distance_loop64.simps [simp del]

definition distance64 :: "Unit \<Rightarrow> number \<Rightarrow> ultrasonic33 \<Rightarrow> number \<times> ultrasonic33" where
  "distance64 unit samples s =
     (let r = distance_loop64 samples 0 [] s; vals = fst r
      in if length vals = 0 then (0, snd r)
         else (let sorted_vals = sort vals;
                   med = sorted_vals ! drop_bit 1 (length sorted_vals)
               in (if unit = Inches then fl (med / c254) else med, snd r)))"

section \<open>Vocabulary of the properties\<close>

text \<open>
  \<open>feed ps k n\<close> is the list of the next \<open>n\<close> pulse durations, from call \<open>k\<close> on;
  \<open>toCm\<close> is the conversion that ends both single-shot measurements; \<open>trigger33\<close> and
  \<open>retrigger33\<close> are the events of the first trigger and of the re-trigger of the
  robust measurement.
\<close>

definition feed :: "(nat \<Rightarrow> number) \<Rightarrow> nat \<Rightarrow> nat \<Rightarrow> number list" where
  "feed ps k n = map (\<lambda>j. ps (k + j)) [0..<n]"

definition toCm :: "number \<Rightarrow> number" where
  "toCm d = (if d \<le> 0 then 0 else d / 58)"

definition trigger33 :: "ultrasonic33 \<Rightarrow> event list" where
  "trigger33 s =
     [EvWrite (trig33 s) 0, EvWaitMicros 4, EvWrite (trig33 s) 1, EvWaitMicros 30,
      EvWrite (trig33 s) 0, EvWaitMicros (settleUs33 s)]"

definition retrigger33 :: "ultrasonic33 \<Rightarrow> event list" where
  "retrigger33 s =
     [EvWaitMicros 200, EvWrite (trig33 s) 1, EvWaitMicros 20,
      EvWrite (trig33 s) 0, EvWaitMicros (settleUs33 s)]"

text \<open>
  The aggregates. \<open>mean\<close> and \<open>upperMedian\<close> are 0 on the empty list;
  \<open>upperMedian\<close> is the element at index \<open>length div 2\<close> of the list in ascending
  order. \<open>toUnit\<close> is the conversion of a centimeter value to the unit asked for.
  \<open>validSamples samples s\<close> is the list of the measurements above 0 among the
  \<open>max 1 (min 10 (samples | 0))\<close> measurements that \<open>read\<close> makes from state \<open>s\<close>.
\<close>

definition mean :: "number list \<Rightarrow> number" where
  "mean xs = (if xs = [] then 0 else sum_list xs / real (length xs))"

definition upperMedian :: "number list \<Rightarrow> number" where
  "upperMedian xs = (if xs = [] then 0 else sort xs ! (length xs div 2))"

definition toUnit :: "Unit \<Rightarrow> number \<Rightarrow> number" where
  "toUnit unit cm = (if unit = Inches then cm / 2.54 else cm)"

definition validSamples :: "number \<Rightarrow> ultrasonic \<Rightarrow> number list" where
  "validSamples samples s =
     filter (\<lambda>cm. cm > 0)
       (map toCm (feed (pulses s) (served s) (nat (max 1 (min 10 (toInt32 samples))))))"

text \<open>
  The same vocabulary in double arithmetic: \<open>mean64\<close> adds the samples from the left
  as the loop of \<open>read\<close> does, rounding every sum, and rounds the quotient.
  \<open>near k a b\<close> says that \<open>a\<close> and \<open>b\<close> are within the factor \<open>rho ^ k\<close> of each
  other, \<open>rho\<close> being \<open>1 + 2 ^ -52\<close>: one rounding moves a number by less than one
  factor \<open>rho\<close>.
\<close>

definition toCm64 :: "number \<Rightarrow> number" where
  "toCm64 d = (if d \<le> 0 then 0 else fl (d / 58))"

definition toUnit64 :: "Unit \<Rightarrow> number \<Rightarrow> number" where
  "toUnit64 unit cm = (if unit = Inches then fl (cm / c254) else cm)"

definition mean64 :: "real list \<Rightarrow> real" where
  "mean64 xs = (if xs = [] then 0 else fl (foldl (\<lambda>a x. fl (a + x)) 0 xs / real (length xs)))"

definition validSamples64 :: "number \<Rightarrow> ultrasonic \<Rightarrow> number list" where
  "validSamples64 samples s =
     filter (\<lambda>cm. cm > 0)
       (map toCm64 (feed (pulses s) (served s) (nat (max 1 (min 10 (toInt32 samples))))))"

definition rho :: real where
  "rho = 1 + 1 / 2 ^ 52"

definition near :: "nat \<Rightarrow> real \<Rightarrow> real \<Rightarrow> bool" where
  "near k a b \<longleftrightarrow> a \<le> b * rho ^ k \<and> b \<le> a * rho ^ k"

section \<open>The board operations, field by field\<close>

lemmas board_ops =
  digitalWritePin_def waitMicros_def pause_def pulseIn_def callHandler_def setPull_def

lemma ops_board [simp]:
  "pulses (digitalWritePin p v b) = pulses b" "served (digitalWritePin p v b) = served b"
  "trace (digitalWritePin p v b) = trace b @ [EvWrite p v]"
  "pulses (waitMicros us b) = pulses b" "served (waitMicros us b) = served b"
  "trace (waitMicros us b) = trace b @ [EvWaitMicros us]"
  "pulses (pause ms b) = pulses b" "served (pause ms b) = served b"
  "trace (pause ms b) = trace b @ [EvPause ms]"
  "pulses (callHandler h cm b) = pulses b" "served (callHandler h cm b) = served b"
  "trace (callHandler h cm b) = trace b @ [EvHandler h cm]"
  "fst (pulseIn p pv t b) = pulses b (served b)"
  "pulses (snd (pulseIn p pv t b)) = pulses b"
  "served (snd (pulseIn p pv t b)) = Suc (served b)"
  "trace (snd (pulseIn p pv t b)) = trace b @ [EvPulseIn p pv t]"
  by (simp_all add: board_ops)

lemma ops_ultrasonic [simp]:
  "trig (digitalWritePin p v s) = trig s" "echo (digitalWritePin p v s) = echo s"
  "maxUs (digitalWritePin p v s) = maxUs s"
  "trig (waitMicros us s) = trig s" "echo (waitMicros us s) = echo s"
  "maxUs (waitMicros us s) = maxUs s"
  "trig (pause ms s) = trig s" "echo (pause ms s) = echo s" "maxUs (pause ms s) = maxUs s"
  "trig (callHandler h cm s) = trig s" "echo (callHandler h cm s) = echo s"
  "maxUs (callHandler h cm s) = maxUs s"
  "trig (snd (pulseIn p pv t s)) = trig s" "echo (snd (pulseIn p pv t s)) = echo s"
  "maxUs (snd (pulseIn p pv t s)) = maxUs s"
  by (simp_all add: board_ops)

lemma ops_ultrasonic33 [simp]:
  "trig33 (digitalWritePin p v s) = trig33 s" "echo33 (digitalWritePin p v s) = echo33 s"
  "maxUs33 (digitalWritePin p v s) = maxUs33 s"
  "settleUs33 (digitalWritePin p v s) = settleUs33 s"
  "trig33 (waitMicros us s) = trig33 s" "echo33 (waitMicros us s) = echo33 s"
  "maxUs33 (waitMicros us s) = maxUs33 s" "settleUs33 (waitMicros us s) = settleUs33 s"
  "trig33 (pause ms s) = trig33 s" "echo33 (pause ms s) = echo33 s"
  "maxUs33 (pause ms s) = maxUs33 s" "settleUs33 (pause ms s) = settleUs33 s"
  "trig33 (snd (pulseIn p pv t s)) = trig33 s" "echo33 (snd (pulseIn p pv t s)) = echo33 s"
  "maxUs33 (snd (pulseIn p pv t s)) = maxUs33 s"
  "settleUs33 (snd (pulseIn p pv t s)) = settleUs33 s"
  by (simp_all add: board_ops)

lemma feed_0: "feed ps k 0 = []"
  by (simp add: feed_def)

lemma feed_Suc: "feed ps k (Suc n) = ps k # feed ps (Suc k) n"
  by (simp add: feed_def upt_conv_Cons map_Suc_upt [symmetric] del: upt_Suc)

lemma rounds_step: "real i < x \<Longrightarrow> nat \<lceil>x\<rceil> - i = Suc (nat \<lceil>x\<rceil> - Suc i)"
  by linarith

lemma rounds_done: "\<not> real i < x \<Longrightarrow> nat \<lceil>x\<rceil> - i = 0"
  by linarith

section \<open>One measurement of the standard variant\<close>

lemma measureOnceCm_fst: "fst (measureOnceCm s) = toCm (pulses s (served s))"
  by (simp add: measureOnceCm_def Let_def toCm_def)

lemma measureOnceCm_served: "served (snd (measureOnceCm s)) = Suc (served s)"
  by (simp add: measureOnceCm_def Let_def)

lemma measureOnceCm_trace:
  "trace (snd (measureOnceCm s)) = trace s @
     [EvWrite (trig s) 0, EvWaitMicros 2, EvWrite (trig s) 1, EvWaitMicros 10,
      EvWrite (trig s) 0, EvPulseIn (echo s) High (maxUs s)]"
  by (simp add: measureOnceCm_def Let_def)

lemma measureOnceCm_frame [simp]:
  "pulses (snd (measureOnceCm s)) = pulses s" "trig (snd (measureOnceCm s)) = trig s"
  "echo (snd (measureOnceCm s)) = echo s" "maxUs (snd (measureOnceCm s)) = maxUs s"
  by (simp_all add: measureOnceCm_def Let_def)

section \<open>The loop of read\<close>

lemma read_loop_served:
  "served (snd (read_loop samples i sumCm cnt s)) = served s + (nat \<lceil>samples\<rceil> - i)"
proof (induction samples i sumCm cnt s rule: read_loop.induct)
  case (1 samples i sumCm cnt s)
  show ?case
  proof (cases "real i < samples")
    case True
    with "1" rounds_step [OF True] show ?thesis
      by (subst read_loop.simps) (simp add: measureOnceCm_served Let_def)
  next
    case False
    with rounds_done [OF False] show ?thesis by (subst read_loop.simps) simp
  qed
qed

lemma read_loop_result:
  "fst (read_loop samples i sumCm cnt s) =
     (sumCm + sum_list (filter (\<lambda>c. c > 0)
        (map toCm (feed (pulses s) (served s) (nat \<lceil>samples\<rceil> - i)))),
      cnt + length (filter (\<lambda>c. c > 0)
        (map toCm (feed (pulses s) (served s) (nat \<lceil>samples\<rceil> - i)))))"
proof (induction samples i sumCm cnt s rule: read_loop.induct)
  case (1 samples i sumCm cnt s)
  show ?case
  proof (cases "real i < samples")
    case True
    from True "1" show ?thesis
      by (subst read_loop.simps)
         (simp add: rounds_step [OF True] feed_Suc Let_def measureOnceCm_fst measureOnceCm_served)
  next
    case False
    with rounds_done [OF False] show ?thesis by (subst read_loop.simps) (simp add: feed_0)
  qed
qed

section \<open>One measurement of the robust variant\<close>

lemma retrigger_fst:
  "fst (retrigger s) =
     (if pulses s (served s) > 0 then pulses s (served s) else pulses s (Suc (served s)))"
  by (simp add: retrigger_def Let_def not_less)

lemma retrigger_served:
  "served (snd (retrigger s)) = served s + (if pulses s (served s) > 0 then 1 else 2)"
  by (simp add: retrigger_def Let_def not_less)

lemma retrigger_trace:
  "trace (snd (retrigger s)) = trace s @ retrigger33 s @
     (if pulses s (served s) > 0 then [EvPulseIn (echo33 s) High (maxUs33 s)]
      else [EvPulseIn (echo33 s) High (maxUs33 s), EvPulseIn (echo33 s) Low (maxUs33 s)])"
  by (simp add: retrigger_def Let_def not_less retrigger33_def)

lemma retrigger_frame [simp]:
  "pulses (snd (retrigger s)) = pulses s" "trig33 (snd (retrigger s)) = trig33 s"
  "echo33 (snd (retrigger s)) = echo33 s" "maxUs33 (snd (retrigger s)) = maxUs33 s"
  "settleUs33 (snd (retrigger s)) = settleUs33 s"
  by (simp_all add: retrigger_def Let_def)

lemma robust_frame [simp]:
  "pulses (snd (measureOnceCmRobust s)) = pulses s"
  "trig33 (snd (measureOnceCmRobust s)) = trig33 s"
  "echo33 (snd (measureOnceCmRobust s)) = echo33 s"
  "maxUs33 (snd (measureOnceCmRobust s)) = maxUs33 s"
  "settleUs33 (snd (measureOnceCmRobust s)) = settleUs33 s"
  by (simp_all add: measureOnceCmRobust_def Let_def)

lemma robust_fst:
  "fst (measureOnceCmRobust s) =
     (if pulses s (served s) > 0 then pulses s (served s) / 58
      else if pulses s (served s + 1) > 0 then pulses s (served s + 1) / 58
      else if pulses s (served s + 2) > 0 then pulses s (served s + 2) / 58
      else if pulses s (served s + 3) > 0 then pulses s (served s + 3) / 58
      else 0)"
  by (simp add: measureOnceCmRobust_def Let_def not_less retrigger_fst numeral_3_eq_3)

lemma robust_served:
  "served (snd (measureOnceCmRobust s)) = served s +
     (if pulses s (served s) > 0 then 1
      else if pulses s (served s + 1) > 0 then 2
      else if pulses s (served s + 2) > 0 then 3 else 4)"
  by (simp add: measureOnceCmRobust_def Let_def not_less retrigger_served)

lemma robust_trace:
  "trace (snd (measureOnceCmRobust s)) = trace s @ trigger33 s @
     (if pulses s (served s) > 0 then [EvPulseIn (echo33 s) High (maxUs33 s)]
      else if pulses s (served s + 1) > 0 then
        [EvPulseIn (echo33 s) High (maxUs33 s), EvPulseIn (echo33 s) Low (maxUs33 s)]
      else if pulses s (served s + 2) > 0 then
        [EvPulseIn (echo33 s) High (maxUs33 s), EvPulseIn (echo33 s) Low (maxUs33 s)] @
        retrigger33 s @ [EvPulseIn (echo33 s) High (maxUs33 s)]
      else
        [EvPulseIn (echo33 s) High (maxUs33 s), EvPulseIn (echo33 s) Low (maxUs33 s)] @
        retrigger33 s @
        [EvPulseIn (echo33 s) High (maxUs33 s), EvPulseIn (echo33 s) Low (maxUs33 s)])"
  by (simp add: measureOnceCmRobust_def Let_def not_less retrigger_trace trigger33_def
      retrigger33_def)

section \<open>The loop of distance\<close>

lemma robust_served_mono: "served s \<le> served (snd (measureOnceCmRobust s))"
  by (simp add: robust_served)

lemma distance_loop_positive:
  "\<forall>v \<in> set vals. 0 < v \<Longrightarrow> \<forall>v \<in> set (fst (distance_loop samples i vals s)). 0 < v"
proof (induction samples i vals s rule: distance_loop.induct)
  case (1 samples i vals s)
  show ?case
  proof (cases "real i < samples")
    case True
    let ?cm = "fst (measureOnceCmRobust s)"
    let ?vals = "if 0 < ?cm then vals @ [?cm] else vals"
    have step: "distance_loop samples i vals s =
        distance_loop samples (Suc i) ?vals (pause 20 (snd (measureOnceCmRobust s)))"
      using True by (subst distance_loop.simps) (simp add: Let_def)
    have "\<forall>v \<in> set ?vals. 0 < v"
      using "1.prems" by simp
    from "1.IH" [OF True refl refl this] show ?thesis
      by (simp only: step)
  next
    case False
    with "1.prems" show ?thesis by (subst distance_loop.simps) simp
  qed
qed

lemma distance_loop_echoes:
  "\<forall>j < nat \<lceil>samples\<rceil> - i. 0 < pulses s (served s + j) \<Longrightarrow>
   fst (distance_loop samples i vals s) =
     vals @ map (\<lambda>d. d / 58) (feed (pulses s) (served s) (nat \<lceil>samples\<rceil> - i))
   \<and> served (snd (distance_loop samples i vals s)) = served s + (nat \<lceil>samples\<rceil> - i)"
proof (induction samples i vals s rule: distance_loop.induct)
  case (1 samples i vals s)
  show ?case
  proof (cases "real i < samples")
    case True
    note st = rounds_step [OF True]
    from "1.prems" [rule_format, of 0] st have p0: "0 < pulses s (served s)"
      by simp
    let ?s' = "pause 20 (snd (measureOnceCmRobust s))"
    have sv: "served (snd (measureOnceCmRobust s)) = Suc (served s)"
      using p0 by (simp add: robust_served)
    have cm: "fst (measureOnceCmRobust s) = pulses s (served s) / 58"
      using p0 by (simp add: robust_fst)
    have step: "distance_loop samples i vals s =
        distance_loop samples (Suc i) (vals @ [pulses s (served s) / 58]) ?s'"
      using True p0 by (subst distance_loop.simps) (simp add: Let_def cm)
    have "\<forall>j < nat \<lceil>samples\<rceil> - Suc i. 0 < pulses ?s' (served ?s' + j)"
    proof (intro allI impI)
      fix j assume "j < nat \<lceil>samples\<rceil> - Suc i"
      with st have "Suc j < nat \<lceil>samples\<rceil> - i" by simp
      with "1.prems" have "0 < pulses s (served s + Suc j)" by blast
      then show "0 < pulses ?s' (served ?s' + j)" by (simp add: sv)
    qed
    from "1.IH" [OF True refl refl this] p0
    have "fst (distance_loop samples (Suc i) (vals @ [pulses s (served s) / 58]) ?s') =
        (vals @ [pulses s (served s) / 58]) @
        map (\<lambda>d. d / 58) (feed (pulses s) (Suc (served s)) (nat \<lceil>samples\<rceil> - Suc i))
      \<and> served (snd (distance_loop samples (Suc i) (vals @ [pulses s (served s) / 58]) ?s')) =
        Suc (served s) + (nat \<lceil>samples\<rceil> - Suc i)"
      by (simp add: cm sv)
    then show ?thesis
      by (simp add: step st feed_Suc)
  next
    case False
    with rounds_done [OF False] show ?thesis
      by (subst (1 2) distance_loop.simps) (simp add: feed_0)
  qed
qed

section \<open>The aggregates\<close>

lemma toInt32_of_int:
  assumes "- (2 ^ 31) \<le> x" "x < 2 ^ 31"
  shows "toInt32 (of_int x) = x"
proof -
  have t: "(if real_of_int x < 0 then - \<lfloor>- real_of_int x\<rfloor> else \<lfloor>real_of_int x\<rfloor>) = x"
    by (simp flip: of_int_minus)
  show ?thesis
  proof (cases "0 \<le> x")
    case True
    with assms have "x mod 2 ^ 32 = x" by (simp add: mod_pos_pos_trivial)
    with assms show ?thesis by (simp only: toInt32_def t Let_def) simp
  next
    case False
    from assms False have "(x + 2 ^ 32) mod 2 ^ 32 = x + 2 ^ 32"
      by (intro mod_pos_pos_trivial) simp_all
    then have "x mod 2 ^ 32 = x + 2 ^ 32" by simp
    with assms False show ?thesis by (simp only: toInt32_def t Let_def) simp
  qed
qed

lemma samples_rounds: "nat \<lceil>max 1 (min 10 (bor0 x))\<rceil> = nat (max 1 (min 10 (toInt32 x)))"
proof -
  have "max 1 (min 10 (bor0 x)) = of_int (max 1 (min 10 (toInt32 x)))"
    by (simp add: bor0_def max_def min_def)
  then show ?thesis by (simp only: ceiling_of_int)
qed

lemma read_fst: "fst (read unit samples s) = toUnit unit (mean (validSamples samples s))"
  by (simp add: read_def Let_def read_loop_result samples_rounds toUnit_def mean_def
      validSamples_def)

lemma read_snd: "snd (read unit samples s) = snd (read_loop (max 1 (min 10 (bor0 samples))) 0 0 0 s)"
  by (simp add: read_def Let_def)

lemma read_served:
  "served (snd (read unit samples s)) = served s + nat (max 1 (min 10 (toInt32 samples)))"
  by (simp add: read_snd read_loop_served samples_rounds)

lemma distance_fst:
  "fst (distance unit samples s) = toUnit unit (upperMedian (fst (distance_loop samples 0 [] s)))"
  by (simp add: distance_def Let_def toUnit_def upperMedian_def drop_bit_eq_div)

lemma distance_snd: "snd (distance unit samples s) = snd (distance_loop samples 0 [] s)"
  by (simp add: distance_def Let_def)

lemma mean_nonneg: "\<forall>v \<in> set xs. 0 < v \<Longrightarrow> 0 \<le> mean xs"
  by (simp add: mean_def sum_list_nonneg less_imp_le)

lemma upperMedian_mem: "xs \<noteq> [] \<Longrightarrow> upperMedian xs \<in> set xs"
proof -
  assume "xs \<noteq> []"
  then have "length xs div 2 < length (sort xs)" by (cases xs) simp_all
  then have "sort xs ! (length xs div 2) \<in> set (sort xs)" by (rule nth_mem)
  with \<open>xs \<noteq> []\<close> show ?thesis by (simp add: upperMedian_def)
qed

lemma upperMedian_nonneg:
  assumes "\<forall>v \<in> set xs. 0 < v"
  shows "0 \<le> upperMedian xs"
proof (cases "xs = []")
  case True
  then show ?thesis by (simp add: upperMedian_def)
next
  case False
  from upperMedian_mem [OF False] assms have "0 < upperMedian xs" by blast
  then show ?thesis by simp
qed

lemma toUnit_nonneg: "0 \<le> cm \<Longrightarrow> 0 \<le> toUnit unit cm"
  by (simp add: toUnit_def)

lemma batch_eq:
  "map toCm (feed (pulses s) (served s) n) =
   map (\<lambda>k. fst (measureOnceCm (s\<lparr>served := served s + k\<rparr>))) [0..<n]"
  by (simp add: feed_def measureOnceCm_fst)

lemma validSamples_no_echo:
  assumes "\<forall>k. served s \<le> k \<and> k < served (snd (read unit samples s)) \<longrightarrow> pulses s k \<le> 0"
  shows "validSamples samples s = []"
proof -
  have "toCm (pulses s (served s + j)) = 0" if "j < nat (max 1 (min 10 (toInt32 samples)))" for j
    using assms that by (simp add: read_served toCm_def)
  then show ?thesis
    by (simp add: validSamples_def feed_def filter_empty_conv)
qed

lemma robust_no_echo:
  assumes "\<forall>k. served r \<le> k \<and> k < served (snd (measureOnceCmRobust r)) \<longrightarrow> pulses r k \<le> 0"
  shows "fst (measureOnceCmRobust r) = 0"
proof -
  have lt: "served r < served (snd (measureOnceCmRobust r))" by (simp add: robust_served)
  with assms have d1: "pulses r (served r) \<le> 0" by simp
  then have "served r + 1 < served (snd (measureOnceCmRobust r))" by (simp add: robust_served)
  with assms have d2: "pulses r (served r + 1) \<le> 0" by simp
  with d1 have "served r + 2 < served (snd (measureOnceCmRobust r))" by (simp add: robust_served)
  with assms have d3: "pulses r (served r + 2) \<le> 0" by simp
  with d1 d2 have "served r + 3 < served (snd (measureOnceCmRobust r))" by (simp add: robust_served)
  with assms have d4: "pulses r (served r + 3) \<le> 0" by simp
  from d1 d2 d3 d4 show ?thesis by (simp add: robust_fst not_less)
qed

lemma distance_loop_served_mono: "served s \<le> served (snd (distance_loop samples i vals s))"
proof (induction samples i vals s rule: distance_loop.induct)
  case (1 samples i vals s)
  show ?case
  proof (cases "real i < samples")
    case True
    let ?cm = "fst (measureOnceCmRobust s)"
    let ?vals = "if 0 < ?cm then vals @ [?cm] else vals"
    let ?s' = "pause 20 (snd (measureOnceCmRobust s))"
    have step: "distance_loop samples i vals s = distance_loop samples (Suc i) ?vals ?s'"
      using True by (subst distance_loop.simps) (simp add: Let_def)
    have "served s \<le> served ?s'" by (simp add: robust_served_mono)
    also from "1.IH" [OF True refl refl]
    have "served ?s' \<le> served (snd (distance_loop samples (Suc i) ?vals ?s'))" .
    finally show ?thesis by (simp only: step)
  next
    case False
    then show ?thesis by (subst distance_loop.simps) simp
  qed
qed

lemma distance_loop_all_fail:
  "\<forall>k. served s \<le> k \<and> k < served (snd (distance_loop samples i vals s)) \<longrightarrow> pulses s k \<le> 0
   \<Longrightarrow> fst (distance_loop samples i vals s) = vals"
proof (induction samples i vals s rule: distance_loop.induct)
  case (1 samples i vals s)
  show ?case
  proof (cases "real i < samples")
    case True
    let ?cm = "fst (measureOnceCmRobust s)"
    let ?vals = "if 0 < ?cm then vals @ [?cm] else vals"
    let ?s' = "pause 20 (snd (measureOnceCmRobust s))"
    have step: "distance_loop samples i vals s = distance_loop samples (Suc i) ?vals ?s'"
      using True by (subst distance_loop.simps) (simp add: Let_def)
    have mono: "served ?s' \<le> served (snd (distance_loop samples (Suc i) ?vals ?s'))"
      by (rule distance_loop_served_mono)
    have all: "\<forall>k. served s \<le> k \<and> k < served (snd (distance_loop samples (Suc i) ?vals ?s'))
        \<longrightarrow> pulses s k \<le> 0"
      using "1.prems" by (simp only: step)
    have "\<forall>k. served s \<le> k \<and> k < served (snd (measureOnceCmRobust s)) \<longrightarrow> pulses s k \<le> 0"
      using all mono by simp
    then have z: "?cm = 0" by (rule robust_no_echo)
    have "\<forall>k. served ?s' \<le> k \<and> k < served (snd (distance_loop samples (Suc i) ?vals ?s'))
        \<longrightarrow> pulses ?s' k \<le> 0"
      using all robust_served_mono [of s] by simp
    from "1.IH" [OF True refl refl this] z show ?thesis
      by (simp only: step) simp
  next
    case False
    then show ?thesis by (subst distance_loop.simps) simp
  qed
qed

lemma feed_scaled:
  assumes "\<forall>j < length xs. ps (k + j) = 58 * xs ! j"
  shows "map (\<lambda>d. d / 58) (feed ps k (length xs)) = xs"
  using assms by (intro nth_equalityI) (simp_all add: feed_def)

lemma distance_loop_collects:
  assumes "\<forall>x \<in> set xs. 0 < x" and "\<forall>j < length xs. pulses r (served r + j) = 58 * xs ! j"
  shows "fst (distance_loop (real (length xs)) 0 [] r) = xs"
proof -
  have n: "nat \<lceil>real (length xs)\<rceil> - 0 = length xs" by simp
  have "\<forall>j < nat \<lceil>real (length xs)\<rceil> - 0. 0 < pulses r (served r + j)"
    using assms by (simp only: n) simp
  from distance_loop_echoes [OF this, of "[]"] show ?thesis
    by (simp only: n feed_scaled [OF assms(2)]) simp
qed

lemma mean_scaled: "mean (map (\<lambda>v. v / c) xs) = mean xs / c"
proof -
  have "sum_list (map (\<lambda>v. v / c) xs) = sum_list xs / c"
    by (induction xs) (simp_all add: add_divide_distrib)
  then show ?thesis by (simp add: mean_def)
qed

lemma read_clamped:
  "read unit samples s = read unit (real_of_int (max 1 (min 10 (toInt32 samples)))) s"
proof -
  have "toInt32 (real_of_int (max 1 (min 10 (toInt32 samples)))) = max 1 (min 10 (toInt32 samples))"
    by (rule toInt32_of_int) simp_all
  then have "max 1 (min 10 (bor0 (real_of_int (max 1 (min 10 (toInt32 samples)))))) =
      max 1 (min 10 (bor0 samples))"
    by (simp add: bor0_def)
  then show ?thesis by (simp only: read_def)
qed

lemma distance_all_echo:
  assumes "\<forall>k. 0 < pulses r k"
  shows "served (snd (distance unit samples r)) = served r + nat \<lceil>samples\<rceil>"
    and "fst (distance_loop samples 0 [] r) =
      map (\<lambda>d. d / 58) (feed (pulses r) (served r) (nat \<lceil>samples\<rceil>))"
proof -
  have "\<forall>j < nat \<lceil>samples\<rceil> - 0. 0 < pulses r (served r + j)" using assms by simp
  from distance_loop_echoes [OF this, of "[]"]
  show "served (snd (distance unit samples r)) = served r + nat \<lceil>samples\<rceil>"
    and "fst (distance_loop samples 0 [] r) =
      map (\<lambda>d. d / 58) (feed (pulses r) (served r) (nat \<lceil>samples\<rceil>))"
    by (simp_all add: distance_snd)
qed

section \<open>The threshold watcher\<close>

lemma watch_round_trace:
  "trace (watch_round threshold handler s) =
     trace (snd (distanceCm s)) @
     (if 0 < fst (distanceCm s) \<and> fst (distanceCm s) < threshold
      then [EvHandler handler (fst (distanceCm s))] else []) @
     [EvPause 50]"
  by (simp add: watch_round_def Let_def)

lemma onDistanceLessThan_board [simp]:
  "pulses (onDistanceLessThan threshold handler s) = pulses s"
  "served (onDistanceLessThan threshold handler s) = served s"
  "trace (onDistanceLessThan threshold handler s) = trace s"
  by (simp_all add: onDistanceLessThan_def inBackground_def Let_def)

lemma onDistanceLessThan_tasks:
  "tasks (onDistanceLessThan threshold handler s) =
     tasks s @ [(max 2 (min 400 (bor0 threshold)), handler)]"
  by (simp add: onDistanceLessThan_def inBackground_def Let_def)

section \<open>Rounding to a double\<close>

lemma rte_cases:
  "roundTiesToEven x = \<lfloor>x\<rfloor> \<or> roundTiesToEven x = \<lfloor>x\<rfloor> + 1"
  by (simp add: roundTiesToEven_def Let_def)

lemma rte_error: "\<bar>of_int (roundTiesToEven x) - x\<bar> \<le> 1 / 2"
  unfolding roundTiesToEven_def Let_def by (auto simp: abs_if) linarith+

lemma rte_of_int [simp]: "roundTiesToEven (of_int n) = n"
  by (simp add: roundTiesToEven_def)

lemma rte_mono:
  assumes "x \<le> y"
  shows "roundTiesToEven x \<le> roundTiesToEven y"
proof (cases "\<lfloor>x\<rfloor> = \<lfloor>y\<rfloor>")
  case True
  with assms show ?thesis
    by (auto simp: roundTiesToEven_def Let_def)
next
  case False
  with assms have "\<lfloor>x\<rfloor> < \<lfloor>y\<rfloor>" using floor_mono [OF assms] by linarith
  moreover have "roundTiesToEven x \<le> \<lfloor>x\<rfloor> + 1" using rte_cases [of x] by linarith
  moreover have "\<lfloor>y\<rfloor> \<le> roundTiesToEven y" using rte_cases [of y] by linarith
  ultimately show ?thesis by linarith
qed

lemma expo_ge: "- 1022 \<le> expo x"
  by (simp add: expo_def)

lemma two_powi_pos [simp]: "0 < (2::real) powi k"
  by (simp add: zero_less_power_int)

lemma expo_upper: "\<bar>x\<bar> < 2 powi (expo x + 1)"
proof -
  let ?n = "\<lfloor>\<bar>x\<bar> * 2 ^ 1074\<rfloor>"
  have n0: "0 \<le> ?n" by simp
  have "\<bar>x\<bar> * 2 ^ 1074 < 2 powi (expo x + 1075)"
  proof (cases "?n = 0")
    case True
    then have "\<bar>x\<bar> * 2 ^ 1074 < 1" by (metis floor_less_one zero_less_one)
    also have "(1::real) \<le> 2 powi (expo x + 1075)"
      using expo_ge [of x] by (intro one_le_power_int) simp_all
    finally show ?thesis .
  next
    case False
    with n0 have pos: "0 < ?n" by linarith
    from bitlen_bounds [OF pos] have "?n < 2 ^ nat (bitlen ?n)" by simp
    then have "\<bar>x\<bar> * 2 ^ 1074 < 2 ^ nat (bitlen ?n)"
      by (metis floor_less_iff of_int_numeral of_int_power)
    also have "(2::real) ^ nat (bitlen ?n) = 2 powi (bitlen ?n)"
      using bitlen_nonneg [of ?n] by (simp add: power_int_def)
    also have "\<dots> \<le> 2 powi (expo x + 1075)"
      by (intro power_int_increasing) (simp_all add: expo_def)
    finally show ?thesis .
  qed
  then have "\<bar>x\<bar> * 2 powi 1074 < 2 powi (expo x + 1) * 2 powi 1074"
    by (simp add: power_int_add)
  then show ?thesis by simp
qed

lemma expo_lower:
  assumes "2 powi (- 1022) \<le> \<bar>x\<bar>"
  shows "2 powi (expo x) \<le> \<bar>x\<bar>"
proof -
  let ?n = "\<lfloor>\<bar>x\<bar> * 2 ^ 1074\<rfloor>"
  have "(2::real) ^ 52 = 2 powi (- 1022) * 2 powi 1074"
    by (simp add: power_int_add [symmetric])
  also have "\<dots> \<le> \<bar>x\<bar> * 2 powi 1074"
    using assms by (intro mult_right_mono) simp_all
  finally have big: "(2::real) ^ 52 \<le> \<bar>x\<bar> * 2 ^ 1074" by simp
  then have n52: "2 ^ 52 \<le> ?n"
    by (metis le_floor_iff of_int_numeral of_int_power)
  then have pos: "0 < ?n" by (smt (verit) zero_less_power)
  from bitlen_bounds [OF pos] have lo: "2 ^ nat (bitlen ?n - 1) \<le> ?n" by simp
  have b53: "53 \<le> bitlen ?n"
  proof (rule ccontr)
    assume "\<not> 53 \<le> bitlen ?n"
    then have "nat (bitlen ?n) \<le> 52" by simp
    then have "(2::int) ^ nat (bitlen ?n) \<le> 2 ^ 52" by (intro power_increasing) simp_all
    with bitlen_bounds [OF pos] n52 show False by linarith
  qed
  then have e: "expo x = bitlen ?n - 1075" by (simp add: expo_def)
  from lo have "real_of_int (2 ^ nat (bitlen ?n - 1)) \<le> real_of_int ?n" by (simp only: of_int_le_iff)
  also have "\<dots> \<le> \<bar>x\<bar> * 2 ^ 1074" by (rule of_int_floor_le)
  finally have "(2::real) ^ nat (bitlen ?n - 1) \<le> \<bar>x\<bar> * 2 ^ 1074" by simp
  moreover have "(2::real) ^ nat (bitlen ?n - 1) = 2 powi (bitlen ?n - 1)"
    using b53 by (simp add: power_int_def)
  ultimately have "2 powi (expo x + 1074) \<le> \<bar>x\<bar> * 2 powi 1074"
    by (simp add: e)
  then have "2 powi (expo x) * 2 powi 1074 \<le> \<bar>x\<bar> * 2 powi 1074"
    by (simp add: power_int_add)
  then show ?thesis by simp
qed

lemma expo_normal:
  assumes "2 powi e \<le> \<bar>x\<bar>" and "\<bar>x\<bar> < 2 powi (e + 1)" and "- 1022 \<le> e"
  shows "expo x = e"
proof -
  have "2 powi (- 1022) \<le> (2::real) powi e"
    using assms(3) by (intro power_int_increasing) simp_all
  with assms(1) have n: "2 powi (- 1022) \<le> \<bar>x\<bar>" by linarith
  from expo_lower [OF n] assms(2) have "(2::real) powi (expo x) < 2 powi (e + 1)" by linarith
  then have a: "expo x < e + 1"
    by (smt (verit) power_int_increasing)
  from expo_upper [of x] assms(1) have "(2::real) powi e < 2 powi (expo x + 1)" by linarith
  then have "e < expo x + 1"
    by (smt (verit) power_int_increasing)
  with a show ?thesis by linarith
qed

lemma fl_normal:
  assumes "2 ^ 52 \<le> \<bar>x\<bar> * 2 powi k" and "\<bar>x\<bar> * 2 powi k < 2 ^ 53" and "k \<le> 1074"
  shows "fl x = of_int (roundTiesToEven (x * 2 powi k)) / 2 powi k"
proof -
  have "2 powi (52 - k) * 2 powi k \<le> \<bar>x\<bar> * 2 powi k"
    using assms(1) by (simp add: power_int_add [symmetric])
  then have a: "2 powi (52 - k) \<le> \<bar>x\<bar>" by simp
  have "\<bar>x\<bar> * 2 powi k < 2 powi (52 - k + 1) * 2 powi k"
    using assms(2) by (simp add: power_int_add [symmetric])
  then have b: "\<bar>x\<bar> < 2 powi (52 - k + 1)" by simp
  from expo_normal [OF a b] assms(3) have "expo x - 52 = - k" by simp
  then have "(2::real) powi (expo x - 52) = 1 / 2 powi k"
    by (simp only: power_int_minus_divide)
  then show ?thesis
    by (simp add: fl_def Let_def)
qed

lemma powi_split: "(2::real) powi (a + b) = 2 powi a * 2 powi b"
  by (simp add: power_int_add)

lemma q53: "2 ^ 53 * (2::real) powi (e - 52) = 2 powi (e + 1)"
proof -
  have "(2::real) powi (e + 1) = 2 powi (53 + (e - 52))"
    by (rule arg_cong [where f = "\<lambda>k. 2 powi k"]) simp
  also have "\<dots> = 2 powi 53 * 2 powi (e - 52)" by (rule powi_split)
  also have "(2::real) powi 53 = 2 ^ 53" by simp
  finally show ?thesis by simp
qed

lemma q52: "2 ^ 52 * (2::real) powi (e - 52) = 2 powi e"
proof -
  have "(2::real) powi e = 2 powi (52 + (e - 52))"
    by (rule arg_cong [where f = "\<lambda>k. 2 powi k"]) simp
  also have "\<dots> = 2 powi 52 * 2 powi (e - 52)" by (rule powi_split)
  also have "(2::real) powi 52 = 2 ^ 52" by simp
  finally show ?thesis by simp
qed

lemma qhalf: "(2::real) powi (e - 52) / 2 = 2 powi e / 2 ^ 53"
  using q53 [of e] by (simp add: powi_split)

lemma expo_lower_gt:
  assumes "- 1022 < expo x"
  shows "2 powi (expo x) \<le> \<bar>x\<bar>"
proof -
  let ?n = "\<lfloor>\<bar>x\<bar> * 2 ^ 1074\<rfloor>"
  from assms have e: "expo x = bitlen ?n - 1075" and b: "53 < bitlen ?n"
    by (simp_all add: expo_def max_def split: if_splits)
  from b have "bitlen ?n \<noteq> 0" by simp
  then have pos: "0 < ?n" by (simp add: bitlen_eq_zero_iff)
  from bitlen_bounds [OF pos] have lo: "2 ^ nat (bitlen ?n - 1) \<le> ?n" by simp
  then have "real_of_int (2 ^ nat (bitlen ?n - 1)) \<le> real_of_int ?n" by (simp only: of_int_le_iff)
  also have "\<dots> \<le> \<bar>x\<bar> * 2 ^ 1074" by (rule of_int_floor_le)
  finally have "(2::real) ^ nat (bitlen ?n - 1) \<le> \<bar>x\<bar> * 2 ^ 1074" by simp
  moreover have "(2::real) ^ nat (bitlen ?n - 1) = 2 powi (bitlen ?n - 1)"
    using b by (simp add: power_int_def)
  ultimately have "2 powi (expo x + 1074) \<le> \<bar>x\<bar> * 2 powi 1074"
    by (simp add: e)
  then have "2 powi (expo x) * 2 powi 1074 \<le> \<bar>x\<bar> * 2 powi 1074"
    by (simp add: power_int_add)
  then show ?thesis by simp
qed

lemma fl_upper:
  assumes "0 \<le> x"
  shows "fl x \<le> 2 powi (expo x + 1)"
proof -
  let ?q = "(2::real) powi (expo x - 52)"
  from expo_upper [of x] assms have "x < 2 powi (expo x + 1)" by simp
  also have "(2::real) powi (expo x + 1) = 2 ^ 53 * ?q"
    by (rule q53 [symmetric])
  finally have "x / ?q \<le> 2 ^ 53" by (simp add: pos_divide_le_eq)
  then have "roundTiesToEven (x / ?q) \<le> roundTiesToEven (of_int (2 ^ 53))"
    by (intro rte_mono) simp
  then have "roundTiesToEven (x / ?q) \<le> 2 ^ 53" by (simp only: rte_of_int)
  then have "real_of_int (roundTiesToEven (x / ?q)) \<le> 2 ^ 53"
    by (metis of_int_le_iff of_int_numeral of_int_power)
  then have "fl x \<le> 2 ^ 53 * ?q"
    by (simp add: fl_def Let_def)
  also have "2 ^ 53 * ?q = 2 powi (expo x + 1)"
    by (rule q53)
  finally show ?thesis .
qed

lemma fl_lower:
  assumes "2 powi (expo x) \<le> x"
  shows "2 powi (expo x) \<le> fl x"
proof -
  let ?q = "(2::real) powi (expo x - 52)"
  have eq: "(2::real) powi (expo x) = 2 ^ 52 * ?q"
    by (rule q52 [symmetric])
  with assms have "2 ^ 52 \<le> x / ?q" by (simp add: pos_le_divide_eq)
  then have "roundTiesToEven (of_int (2 ^ 52)) \<le> roundTiesToEven (x / ?q)"
    by (intro rte_mono) simp
  then have "2 ^ 52 \<le> roundTiesToEven (x / ?q)" by (simp only: rte_of_int)
  then have "2 ^ 52 \<le> real_of_int (roundTiesToEven (x / ?q))"
    by (metis of_int_le_iff of_int_numeral of_int_power)
  then have "2 ^ 52 * ?q \<le> fl x"
    by (simp add: fl_def Let_def)
  with eq show ?thesis by simp
qed

lemma fl_mono:
  assumes "0 \<le> x" and "x \<le> y"
  shows "fl x \<le> fl y"
proof -
  consider "expo x = expo y" | "expo x < expo y" | "expo y < expo x" by linarith
  then show ?thesis
  proof cases
    case 1
    have "x / 2 powi (expo y - 52) \<le> y / 2 powi (expo y - 52)"
      using assms(2) by (simp add: divide_right_mono)
    then have "roundTiesToEven (x / 2 powi (expo y - 52)) \<le> roundTiesToEven (y / 2 powi (expo y - 52))"
      by (rule rte_mono)
    then show ?thesis
      by (simp add: fl_def Let_def 1)
  next
    case 2
    with expo_ge [of x] have "- 1022 < expo y" by linarith
    from expo_lower_gt [OF this] assms have "2 powi (expo y) \<le> y" by simp
    then have "2 powi (expo y) \<le> fl y" by (rule fl_lower)
    moreover have "fl x \<le> 2 powi (expo x + 1)" using assms(1) by (rule fl_upper)
    moreover have "(2::real) powi (expo x + 1) \<le> 2 powi (expo y)"
      using 2 by (intro power_int_increasing) simp_all
    ultimately show ?thesis by linarith
  next
    case 3
    with expo_ge [of y] have "- 1022 < expo x" by linarith
    from expo_lower_gt [OF this] assms have "2 powi (expo x) \<le> x" by simp
    moreover from expo_upper [of y] assms have "y < 2 powi (expo y + 1)" by simp
    moreover have "(2::real) powi (expo y + 1) \<le> 2 powi (expo x)"
      using 3 by (intro power_int_increasing) simp_all
    ultimately show ?thesis using assms(2) by linarith
  qed
qed

lemma fl_error:
  assumes "2 powi (- 1022) \<le> x"
  shows "\<bar>fl x - x\<bar> \<le> x / 2 ^ 53"
proof -
  let ?q = "(2::real) powi (expo x - 52)"
  have xpos: "0 < x" using assms two_powi_pos [of "- 1022"] by linarith
  have "\<bar>real_of_int (roundTiesToEven (x / ?q)) - x / ?q\<bar> \<le> 1 / 2" by (rule rte_error)
  then have "\<bar>real_of_int (roundTiesToEven (x / ?q)) - x / ?q\<bar> * ?q \<le> 1 / 2 * ?q"
    by (intro mult_right_mono) simp_all
  moreover have "fl x - x = (real_of_int (roundTiesToEven (x / ?q)) - x / ?q) * ?q"
    by (simp add: fl_def Let_def left_diff_distrib)
  then have "\<bar>real_of_int (roundTiesToEven (x / ?q)) - x / ?q\<bar> * ?q = \<bar>fl x - x\<bar>"
    by (simp only: abs_mult) simp
  ultimately have "\<bar>fl x - x\<bar> \<le> ?q / 2" by simp
  also have "?q / 2 = 2 powi (expo x) / 2 ^ 53"
    by (rule qhalf)
  also have "\<dots> \<le> x / 2 ^ 53"
    using expo_lower [of x] assms xpos by (simp add: divide_right_mono)
  finally show ?thesis .
qed

section \<open>Rounding errors of sums and quotients\<close>

lemma rho_ge1: "1 \<le> rho"
  by (simp add: rho_def)

lemma rho_pow_ge1: "1 \<le> rho ^ k"
  using rho_ge1 by (rule one_le_power)

lemma rho_pow_pos [simp]: "0 < rho ^ k"
  using rho_pow_ge1 [of k] by linarith

lemma near_refl: "near 0 a a"
  by (simp add: near_def)

lemma near_sym: "near k a b \<Longrightarrow> near k b a"
  by (simp add: near_def)

lemma near_weaken:
  assumes "near j a b" and "j \<le> k" and "0 \<le> a" and "0 \<le> b"
  shows "near k a b"
proof -
  have "rho ^ j \<le> rho ^ k" using rho_ge1 assms(2) by (rule power_increasing [rotated])
  then have "b * rho ^ j \<le> b * rho ^ k" "a * rho ^ j \<le> a * rho ^ k"
    using assms(3,4) by (simp_all add: mult_left_mono)
  with assms(1) show ?thesis unfolding near_def by linarith
qed

lemma near_trans:
  assumes "near j a b" and "near k b c"
  shows "near (j + k) a c"
proof -
  from assms have "a \<le> b * rho ^ j" "b \<le> c * rho ^ k" "c \<le> b * rho ^ k" "b \<le> a * rho ^ j"
    by (simp_all add: near_def)
  then have "a \<le> (c * rho ^ k) * rho ^ j" "c \<le> (a * rho ^ j) * rho ^ k"
    by (smt (verit) mult_right_mono rho_pow_pos)+
  then show ?thesis by (simp add: near_def power_add mult_ac)
qed

lemma near_add:
  assumes "near k a A" and "near k b B"
  shows "near k (a + b) (A + B)"
  using assms by (simp add: near_def distrib_right)

lemma near_div:
  assumes "near j a A" and "near k c C" and "0 \<le> a" and "0 \<le> A" and "0 < c" and "0 < C"
  shows "near (j + k) (a / c) (A / C)"
proof -
  from assms have 1: "a \<le> A * rho ^ j" and 2: "A \<le> a * rho ^ j"
    and 3: "c \<le> C * rho ^ k" and 4: "C \<le> c * rho ^ k"
    by (simp_all add: near_def)
  have "a * C \<le> (A * rho ^ j) * (c * rho ^ k)"
    using 1 4 assms(3,6) by (intro mult_mono) simp_all
  then have "a / c \<le> A / C * rho ^ (j + k)"
    using assms(5,6) by (simp add: field_simps power_add)
  moreover have "A * c \<le> (a * rho ^ j) * (C * rho ^ k)"
    using 2 3 assms(4,5) by (intro mult_mono) simp_all
  then have "A / C \<le> a / c * rho ^ (j + k)"
    using assms(5,6) by (simp add: field_simps power_add)
  ultimately show ?thesis by (simp add: near_def)
qed

lemma near_fl:
  assumes "2 powi (- 1022) \<le> x"
  shows "near 1 (fl x) x"
proof -
  have xpos: "0 < x" using assms two_powi_pos [of "- 1022"] by linarith
  from fl_error [OF assms] have a: "fl x \<le> x + x / 2 ^ 53" and b: "x - x / 2 ^ 53 \<le> fl x"
    by linarith+
  have "x + x / 2 ^ 53 \<le> x * rho" using xpos by (simp add: rho_def distrib_left)
  with a have 1: "fl x \<le> x * rho" by linarith
  have "x \<le> (x - x / 2 ^ 53) * rho" using xpos by (simp add: rho_def field_simps)
  also have "\<dots> \<le> fl x * rho" using b rho_ge1 by (intro mult_right_mono) simp_all
  finally have "x \<le> fl x * rho" .
  with 1 show ?thesis by (simp add: near_def)
qed

lemma fl_0 [simp]: "fl 0 = 0"
  using rte_of_int [of 0] by (simp add: fl_def)

lemma fl_nonneg: "0 \<le> x \<Longrightarrow> 0 \<le> fl x"
  using fl_mono [of 0 x] by simp

lemma c254_value: "c254 = 2859785763380265 / 2 ^ 50"
  unfolding c254_def by (subst fl_normal [where k = 51]) (simp_all add: roundTiesToEven_def)

lemma rho13: "rho ^ 13 \<le> 1 + 1 / 2 ^ 48" "(1 - 1 / 2 ^ 48) * rho ^ 13 \<le> 1" "rho ^ 13 \<le> 2"
  by (simp_all add: rho_def power_divide field_simps)

lemma rho_le13: "k \<le> 13 \<Longrightarrow> rho ^ k \<le> rho ^ 13"
  using rho_ge1 by (rule power_increasing [rotated])

lemma near_lower:
  assumes "near k a b" and "k \<le> 13" and "0 \<le> a"
  shows "b / 2 \<le> a"
proof -
  from assms(1) have "b \<le> a * rho ^ k" by (simp add: near_def)
  also have "a * rho ^ k \<le> a * 2"
    using rho_le13 [OF assms(2)] rho13(3) assms(3) by (intro mult_left_mono) simp_all
  finally show ?thesis by simp
qed

lemma near_error:
  assumes "near k v e" and "k \<le> 13" and "0 \<le> v" and "0 \<le> e"
  shows "\<bar>v - e\<bar> \<le> e / 2 ^ 48"
proof -
  from assms(1) have 1: "v \<le> e * rho ^ k" and 2: "e \<le> v * rho ^ k" by (simp_all add: near_def)
  have r: "rho ^ k \<le> rho ^ 13" by (rule rho_le13 [OF assms(2)])
  have "e * rho ^ k \<le> e * (1 + 1 / 2 ^ 48)"
    using r rho13(1) assms(4) by (intro mult_left_mono) simp_all
  with 1 have up: "v - e \<le> e / 2 ^ 48" by (simp add: distrib_left)
  have "v * rho ^ k \<le> v * rho ^ 13" using r assms(3) by (intro mult_left_mono) simp_all
  with 2 have "e \<le> v * rho ^ 13" by linarith
  then have "(1 - 1 / 2 ^ 48) * e \<le> (1 - 1 / 2 ^ 48) * (v * rho ^ 13)"
    by (intro mult_left_mono) simp_all
  also have "\<dots> = v * ((1 - 1 / 2 ^ 48) * rho ^ 13)" by simp
  also have "\<dots> \<le> v * 1" using rho13(2) assms(3) by (intro mult_left_mono) simp_all
  finally have "e - v \<le> e / 2 ^ 48" by (simp add: left_diff_distrib)
  then have "- (v - e) \<le> e / 2 ^ 48" by linarith
  with up show ?thesis by (intro abs_leI)
qed

lemma fold_near:
  assumes "\<forall>x \<in> set xs. near p (g x) (h x) \<and> 2 powi (- 1022) \<le> g x \<and> 0 \<le> h x"
    and "near k a A" and "p \<le> k" and "0 \<le> a" and "0 \<le> A"
  shows "near (k + length xs) (foldl (\<lambda>a x. fl (a + x)) a (map g xs)) (A + sum_list (map h xs))
    \<and> 0 \<le> foldl (\<lambda>a x. fl (a + x)) a (map g xs)"
  using assms
proof (induction xs arbitrary: a A k)
  case Nil
  then show ?case by simp
next
  case (Cons x xs)
  from Cons.prems(1) have nx: "near p (g x) (h x)" and gx: "2 powi (- 1022) \<le> g x" and hx: "0 \<le> h x"
    by simp_all
  have g0: "0 \<le> g x" using gx two_powi_pos [of "- 1022"] by linarith
  have "near k (g x) (h x)"
    using nx \<open>p \<le> k\<close> g0 hx by (rule near_weaken)
  with Cons.prems(2) have s: "near k (a + g x) (A + h x)" by (rule near_add)
  have "2 powi (- 1022) \<le> a + g x" using gx Cons.prems(4) by linarith
  then have f: "near 1 (fl (a + g x)) (a + g x)" by (rule near_fl)
  have eq: "1 + k = Suc k" by simp
  have n': "near (Suc k) (fl (a + g x)) (A + h x)"
    using near_trans [OF f s] unfolding eq .
  have pk: "p \<le> Suc k" using \<open>p \<le> k\<close> by simp
  have a': "0 \<le> fl (a + g x)" using g0 Cons.prems(4) by (intro fl_nonneg) linarith
  have A': "0 \<le> A + h x" using hx Cons.prems(5) by linarith
  from Cons.prems(1) have rest: "\<forall>x \<in> set xs. near p (g x) (h x) \<and> 2 powi (- 1022) \<le> g x \<and> 0 \<le> h x"
    by simp
  have res: "near (Suc k + length xs) (foldl (\<lambda>a x. fl (a + x)) (fl (a + g x)) (map g xs))
      (A + h x + sum_list (map h xs))
    \<and> 0 \<le> foldl (\<lambda>a x. fl (a + x)) (fl (a + g x)) (map g xs)"
    by (rule Cons.IH [OF rest n' pk a' A'])
  have e1: "Suc k + length xs = k + length (x # xs)" by simp
  have e2: "A + h x + sum_list (map h xs) = A + sum_list (map h (x # xs))" by simp
  have e3: "foldl (\<lambda>a x. fl (a + x)) (fl (a + g x)) (map g xs) = foldl (\<lambda>a x. fl (a + x)) a (map g (x # xs))"
    by simp
  from res show ?case unfolding e1 e2 e3 .
qed

lemma sum_list_ge_len:
  "\<forall>x \<in> set xs. L \<le> h x \<Longrightarrow> real (length xs) * L \<le> sum_list (map h xs)"
  by (induction xs) (simp_all add: distrib_right)

lemma mean64_near:
  assumes "xs \<noteq> []" and "p + length xs \<le> 12"
    and "\<forall>x \<in> set xs. near p (g x) (h x) \<and> 2 powi (- 1022) \<le> g x \<and> 2 powi (- 1010) \<le> h x"
  shows "near (p + length xs + 1) (mean64 (map g xs)) (sum_list (map h xs) / real (length xs))
    \<and> 0 \<le> mean64 (map g xs)"
proof -
  let ?n = "real (length xs)"
  let ?S = "foldl (\<lambda>a x. fl (a + x)) 0 (map g xs)"
  let ?T = "sum_list (map h xs)"
  have L0: "(0::real) \<le> 2 powi (- 1010)" by simp
  have n1: "1 \<le> ?n" using assms(1) by (cases xs) simp_all
  have n12: "?n \<le> 12" using assms(2) by simp
  have h0: "\<forall>x \<in> set xs. near p (g x) (h x) \<and> 2 powi (- 1022) \<le> g x \<and> 0 \<le> h x"
    using assms(3) L0 by (metis order_trans)
  have z: "near p 0 0" by (simp add: near_def)
  from fold_near [OF h0 z order_refl order_refl order_refl]
  have S: "near (p + length xs) ?S (0 + ?T)" and S0: "0 \<le> ?S" by simp_all
  then have S': "near (p + length xs) ?S ?T" by simp
  from assms(3) have "\<forall>x \<in> set xs. 2 powi (- 1010) \<le> h x" by simp
  from sum_list_ge_len [OF this] have "?n * 2 powi (- 1010) \<le> ?T" .
  moreover have "1 * 2 powi (- 1010) \<le> ?n * (2 powi (- 1010) :: real)"
    using n1 by (intro mult_right_mono) simp_all
  ultimately have T: "2 powi (- 1010) \<le> ?T" by simp
  then have T0: "0 \<le> ?T" using L0 by linarith
  have "?T / 2 \<le> ?S" using S' _ S0 by (rule near_lower) (use assms(2) in simp)
  with T have Slow: "2 powi (- 1010) / 2 \<le> ?S" by linarith
  have nn: "near 0 ?n ?n" by (rule near_refl)
  have npos: "0 < ?n" using n1 by linarith
  from near_div [OF S' nn S0 T0 npos npos]
  have d: "near (p + length xs) (?S / ?n) (?T / ?n)" by simp
  have "2 powi (- 1022) \<le> (2 powi (- 1010) / 2) / (12::real)" by simp
  also have "\<dots> \<le> ?S / 12" using Slow by (simp add: divide_right_mono)
  also have "\<dots> \<le> ?S / ?n" using n12 npos S0 by (intro divide_left_mono) simp_all
  finally have "2 powi (- 1022) \<le> ?S / ?n" .
  then have f: "near 1 (fl (?S / ?n)) (?S / ?n)" by (rule near_fl)
  have eq: "1 + (p + length xs) = p + length xs + 1" by simp
  have "near (p + length xs + 1) (fl (?S / ?n)) (?T / ?n)"
    using near_trans [OF f d] unfolding eq .
  moreover have "0 \<le> fl (?S / ?n)" using S0 npos by (intro fl_nonneg) simp
  ultimately show ?thesis using assms(1) by (simp add: mean64_def)
qed

lemma c254_near: "near 1 c254 2.54"
  unfolding c254_def by (rule near_fl) simp

lemma c254_bounds: "2 \<le> c254" "c254 \<le> 3"
  by (simp_all add: c254_value)

lemma sum_list_scaled: "sum_list (map (\<lambda>x. x / c) xs) = sum_list xs / (c::real)"
  by (induction xs) (simp_all add: add_divide_distrib)

lemma inches_mean_tolerance:
  assumes "xs \<noteq> []" and "length xs \<le> 10"
    and "\<forall>x \<in> set xs. 2 powi (- 1000) \<le> x \<and> x \<le> 2 ^ 1000"
  shows "\<bar>fl (mean64 xs / c254) - mean xs / 2.54\<bar> \<le> mean xs / 2.54 / 2 ^ 48"
    and "\<bar>mean64 (map (\<lambda>x. fl (x / c254)) xs) - mean xs / 2.54\<bar> \<le> mean xs / 2.54 / 2 ^ 48"
proof -
  let ?n = "real (length xs)"
  let ?M = "sum_list xs / ?n"
  have cpos: "0 < c254" using c254_bounds(1) by linarith
  have lo: "\<forall>x \<in> set xs. 2 powi (- 1000) \<le> x" using assms(3) by simp
  have n1: "1 \<le> ?n" using assms(1) by (cases xs) simp_all
  have npos: "0 < ?n" using n1 by linarith
  from sum_list_ge_len [of xs "2 powi (- 1000)" "\<lambda>x. x"] lo
  have "?n * 2 powi (- 1000) \<le> sum_list xs" by simp
  then have Mlo: "2 powi (- 1000) \<le> ?M" using npos by (simp add: pos_le_divide_eq mult.commute)
  have M0: "0 \<le> ?M" using Mlo two_powi_pos [of "- 1000"] by linarith
  have E0: "0 \<le> ?M / 2.54" using M0 by simp
  have meq: "mean xs = ?M" using assms(1) by (simp add: mean_def)
  \<comment> \<open>the mean first, then the conversion\<close>
  have a: "\<forall>x \<in> set xs. near 0 x x \<and> 2 powi (- 1022) \<le> x \<and> 2 powi (- 1010) \<le> x"
  proof
    fix x assume "x \<in> set xs"
    with lo have "2 powi (- 1000) \<le> x" by simp
    moreover have "(2::real) powi (- 1022) \<le> 2 powi (- 1000)" "(2::real) powi (- 1010) \<le> 2 powi (- 1000)"
      by (intro power_int_increasing; simp)+
    ultimately show "near 0 x x \<and> 2 powi (- 1022) \<le> x \<and> 2 powi (- 1010) \<le> x"
      using near_refl [of x] by linarith
  qed
  have "0 + length xs \<le> 12" using assms(2) by simp
  from mean64_near [OF assms(1) this a]
  have m: "near (length xs + 1) (mean64 xs) ?M" and m0: "0 \<le> mean64 xs" by simp_all
  have "?M / 2 \<le> mean64 xs" using m _ m0 by (rule near_lower) (use assms(2) in simp)
  moreover have "2 powi (- 1000) / 2 \<le> ?M / 2" using Mlo by (rule divide_right_mono) simp
  ultimately have mlow: "2 powi (- 1000) / 2 \<le> mean64 xs" by (rule order_trans [rotated])
  from near_div [OF m c254_near m0 M0 cpos]
  have d: "near (length xs + 1 + 1) (mean64 xs / c254) (?M / 2.54)" by simp
  have "2 powi (- 1022) \<le> (2 powi (- 1000) / 2) / (3::real)" by simp
  also have "\<dots> \<le> mean64 xs / 3" using mlow by (simp add: divide_right_mono)
  also have "\<dots> \<le> mean64 xs / c254" using c254_bounds cpos m0 by (intro divide_left_mono) simp_all
  finally have "2 powi (- 1022) \<le> mean64 xs / c254" .
  then have "near 1 (fl (mean64 xs / c254)) (mean64 xs / c254)" by (rule near_fl)
  from near_trans [OF this d]
  have l: "near (1 + (length xs + 1 + 1)) (fl (mean64 xs / c254)) (?M / 2.54)" .
  have l0: "0 \<le> fl (mean64 xs / c254)" using m0 cpos by (intro fl_nonneg) simp
  have "\<bar>fl (mean64 xs / c254) - ?M / 2.54\<bar> \<le> ?M / 2.54 / 2 ^ 48"
    using l _ l0 E0 by (rule near_error) (use assms(2) in simp)
  then show "\<bar>fl (mean64 xs / c254) - mean xs / 2.54\<bar> \<le> mean xs / 2.54 / 2 ^ 48"
    by (simp only: meq)
  \<comment> \<open>the conversion of every sample first, then the mean\<close>
  have b: "\<forall>x \<in> set xs. near 2 (fl (x / c254)) (x / 2.54) \<and> 2 powi (- 1022) \<le> fl (x / c254)
      \<and> 2 powi (- 1010) \<le> x / 2.54"
  proof
    fix x assume "x \<in> set xs"
    with lo have x: "2 powi (- 1000) \<le> x" by simp
    then have x0: "0 \<le> x" using two_powi_pos [of "- 1000"] by linarith
    have "2 powi (- 1022) \<le> 2 powi (- 1000) / (3::real)" by simp
    also have "\<dots> \<le> x / 3" using x by (simp add: divide_right_mono)
    also have "\<dots> \<le> x / c254" using c254_bounds cpos x0 by (intro divide_left_mono) simp_all
    finally have "2 powi (- 1022) \<le> x / c254" .
    then have f: "near 1 (fl (x / c254)) (x / c254)" by (rule near_fl)
    have e2: "1 + (0 + 1) = (2::nat)" by simp
    from near_div [OF near_refl [of x] c254_near x0 x0 cpos]
    have "near (0 + 1) (x / c254) (x / 2.54)" by simp
    from near_trans [OF f this] have n2: "near 2 (fl (x / c254)) (x / 2.54)"
      unfolding e2 .
    have f0: "0 \<le> fl (x / c254)" using x0 cpos by (intro fl_nonneg) simp
    have "2 powi (- 1022) \<le> 2 powi (- 1000) / 2.54 / (2::real)" by simp
    also have "2 powi (- 1000) / 2.54 / (2::real) \<le> x / 2.54 / 2" using x by simp
    also have "x / 2.54 / 2 \<le> fl (x / c254)" using n2 _ f0 by (rule near_lower) simp
    finally have g: "2 powi (- 1022) \<le> fl (x / c254)" .
    have "2 powi (- 1010) \<le> 2 powi (- 1000) / (2.54::real)" by simp
    also have "\<dots> \<le> x / 2.54" using x by simp
    finally have "2 powi (- 1010) \<le> x / 2.54" .
    with n2 g show "near 2 (fl (x / c254)) (x / 2.54) \<and> 2 powi (- 1022) \<le> fl (x / c254)
      \<and> 2 powi (- 1010) \<le> x / 2.54" by simp
  qed
  have "2 + length xs \<le> 12" using assms(2) by simp
  from mean64_near [OF assms(1) this b]
  have r: "near (2 + length xs + 1) (mean64 (map (\<lambda>x. fl (x / c254)) xs))
      (sum_list (map (\<lambda>x. x / 2.54) xs) / ?n)"
    and r0: "0 \<le> mean64 (map (\<lambda>x. fl (x / c254)) xs)" by simp_all
  have "sum_list (map (\<lambda>x. x / 2.54) xs) / ?n = ?M / 2.54"
    by (simp only: sum_list_scaled) simp
  with r have r': "near (2 + length xs + 1) (mean64 (map (\<lambda>x. fl (x / c254)) xs)) (?M / 2.54)"
    by simp
  have "\<bar>mean64 (map (\<lambda>x. fl (x / c254)) xs) - ?M / 2.54\<bar> \<le> ?M / 2.54 / 2 ^ 48"
    using r' _ r0 E0 by (rule near_error) (use assms(2) in simp)
  then show "\<bar>mean64 (map (\<lambda>x. fl (x / c254)) xs) - mean xs / 2.54\<bar> \<le> mean xs / 2.54 / 2 ^ 48"
    by (simp only: meq)
qed

section \<open>The code in double arithmetic\<close>

lemma measureOnceCm64_fst: "fst (measureOnceCm64 s) = toCm64 (pulses s (served s))"
  by (simp add: measureOnceCm64_def Let_def toCm64_def)

lemma measureOnceCm64_served: "served (snd (measureOnceCm64 s)) = Suc (served s)"
  by (simp add: measureOnceCm64_def Let_def)

lemma measureOnceCm64_pulses [simp]: "pulses (snd (measureOnceCm64 s)) = pulses s"
  by (simp add: measureOnceCm64_def Let_def)

lemma read_loop64_result:
  "fst (read_loop64 samples i sumCm cnt s) =
     (foldl (\<lambda>a x. fl (a + x)) sumCm (filter (\<lambda>c. c > 0)
        (map toCm64 (feed (pulses s) (served s) (nat \<lceil>samples\<rceil> - i)))),
      cnt + length (filter (\<lambda>c. c > 0)
        (map toCm64 (feed (pulses s) (served s) (nat \<lceil>samples\<rceil> - i)))))"
proof (induction samples i sumCm cnt s rule: read_loop64.induct)
  case (1 samples i sumCm cnt s)
  show ?case
  proof (cases "real i < samples")
    case True
    from True "1" show ?thesis
      by (subst read_loop64.simps)
         (simp add: rounds_step [OF True] feed_Suc Let_def measureOnceCm64_fst
            measureOnceCm64_served)
  next
    case False
    with rounds_done [OF False] show ?thesis by (subst read_loop64.simps) (simp add: feed_0)
  qed
qed

lemma distance_loop64_positive:
  "\<forall>v \<in> set vals. 0 < v \<Longrightarrow> \<forall>v \<in> set (fst (distance_loop64 samples i vals s)). 0 < v"
proof (induction samples i vals s rule: distance_loop64.induct)
  case (1 samples i vals s)
  show ?case
  proof (cases "real i < samples")
    case True
    let ?cm = "fst (measureOnceCmRobust64 s)"
    let ?vals = "if 0 < ?cm then vals @ [?cm] else vals"
    have step: "distance_loop64 samples i vals s =
        distance_loop64 samples (Suc i) ?vals (pause 20 (snd (measureOnceCmRobust64 s)))"
      using True by (subst distance_loop64.simps) (simp add: Let_def)
    have "\<forall>v \<in> set ?vals. 0 < v"
      using "1.prems" by simp
    from "1.IH" [OF True refl refl this] show ?thesis
      by (simp only: step)
  next
    case False
    with "1.prems" show ?thesis by (subst distance_loop64.simps) simp
  qed
qed

lemma distance64_fst:
  "fst (distance64 unit samples s) =
     (if fst (distance_loop64 samples 0 [] s) = [] then 0
      else toUnit64 unit (upperMedian (fst (distance_loop64 samples 0 [] s))))"
  by (simp add: distance64_def Let_def toUnit64_def upperMedian_def drop_bit_eq_div)

lemma distance64_snd: "snd (distance64 unit samples s) = snd (distance_loop64 samples 0 [] s)"
  by (simp add: distance64_def Let_def)

lemma sort_map_mono:
  assumes "\<forall>x \<in> set xs. \<forall>y \<in> set xs. x \<le> y \<longrightarrow> f x \<le> f y"
  shows "sort (map f xs) = map f (sort xs)"
proof -
  have m: "mset (map f (sort xs)) = mset (map f xs)" by simp
  have "sorted_wrt (\<le>) (sort xs)" by simp
  then have "sorted_wrt (\<lambda>x y. f x \<le> f y) (sort xs)"
  proof (rule sorted_wrt_mono_rel [rotated])
    fix x y assume "x \<in> set (sort xs)" "y \<in> set (sort xs)" "x \<le> y"
    with assms show "f x \<le> f y" by simp
  qed
  then have s: "sorted (map f (sort xs))" by (simp only: sorted_map)
  from m s show ?thesis by (rule properties_for_sort)
qed

lemma read64_fst: "fst (read64 unit samples s) = toUnit64 unit (mean64 (validSamples64 samples s))"
  by (simp add: read64_def Let_def read_loop64_result samples_rounds toUnit64_def mean64_def
      validSamples64_def)

lemma read64_snd:
  "snd (read64 unit samples s) = snd (read_loop64 (max 1 (min 10 (bor0 samples))) 0 0 0 s)"
  by (simp add: read64_def Let_def)

lemma upperMedian_fl:
  assumes "\<forall>x \<in> set xs. 0 < x"
  shows "fl (upperMedian xs / c254) = upperMedian (map (\<lambda>cm. fl (cm / c254)) xs)"
proof (cases "xs = []")
  case True
  then show ?thesis by (simp add: upperMedian_def)
next
  case False
  have cpos: "0 < c254" using c254_bounds(1) by linarith
  have "\<forall>x \<in> set xs. \<forall>y \<in> set xs. x \<le> y \<longrightarrow> fl (x / c254) \<le> fl (y / c254)"
  proof (intro ballI impI)
    fix x y assume "x \<in> set xs" and "x \<le> y"
    with assms have "0 \<le> x / c254" using cpos by (simp add: less_imp_le)
    moreover have "x / c254 \<le> y / c254" using \<open>x \<le> y\<close> cpos by (simp add: divide_right_mono)
    ultimately show "fl (x / c254) \<le> fl (y / c254)" by (rule fl_mono)
  qed
  then have s: "sort (map (\<lambda>cm. fl (cm / c254)) xs) = map (\<lambda>cm. fl (cm / c254)) (sort xs)"
    by (rule sort_map_mono)
  from False have "length xs div 2 < length (sort xs)" by (cases xs) simp_all
  with False show ?thesis by (simp add: upperMedian_def s)
qed

section \<open>A batch of 1, 1 and 3 centimeters in double arithmetic\<close>

lemma fl_small_ints: "fl 1 = 1" "fl 2 = 2" "fl 3 = 3" "fl 5 = 5"
proof -
  show "fl 1 = 1" by (subst fl_normal [where k = 52]) (simp_all add: roundTiesToEven_def)
  show "fl 2 = 2" by (subst fl_normal [where k = 51]) (simp_all add: roundTiesToEven_def)
  show "fl 3 = 3" by (subst fl_normal [where k = 51]) (simp_all add: roundTiesToEven_def)
  show "fl 5 = 5" by (subst fl_normal [where k = 50]) (simp_all add: roundTiesToEven_def)
qed

lemma mean64_three: "mean64 [a, b, c] = fl (fl (fl (fl a + b) + c) / 3)"
  by (simp add: mean64_def)

lemma mean64_113: "mean64 [1, 1, 3] = 7505999378950827 / 2 ^ 52"
proof -
  have "fl (5 / 3) = 7505999378950827 / 2 ^ 52"
    by (subst fl_normal [where k = 52]) (simp_all add: roundTiesToEven_def)
  then show ?thesis by (simp add: mean64_three fl_small_ints)
qed

lemma inches_of_mean_113: "fl (mean64 [1, 1, 3] / c254) = 5910235731457344 / 2 ^ 53"
  unfolding mean64_113 c254_value
  by (subst fl_normal [where k = 53]) (simp_all add: roundTiesToEven_def)

lemma inches_1: "fl (1 / c254) = 1773070719437203 / 2 ^ 52"
  unfolding c254_value
  by (subst fl_normal [where k = 54]) (simp_all add: roundTiesToEven_def)

lemma inches_3: "fl (3 / c254) = 5319212158311609 / 2 ^ 52"
  unfolding c254_value
  by (subst fl_normal [where k = 52]) (simp_all add: roundTiesToEven_def)

lemma mean_of_inches_113:
  "mean64 (map (\<lambda>cm. fl (cm / c254)) [1, 1, 3]) = 5910235731457343 / 2 ^ 53"
proof -
  have a: "fl (1773070719437203 / 2 ^ 52) = 1773070719437203 / 2 ^ 52"
    by (subst fl_normal [where k = 54]) (simp_all add: roundTiesToEven_def)
  have b: "fl (1773070719437203 / 2 ^ 52 + 1773070719437203 / 2 ^ 52) = 1773070719437203 / 2 ^ 51"
    by (subst fl_normal [where k = 53]) (simp_all add: roundTiesToEven_def)
  have c: "fl (1773070719437203 / 2 ^ 51 + 5319212158311609 / 2 ^ 52) = 8865353597186015 / 2 ^ 52"
    by (subst fl_normal [where k = 52]) (simp_all add: roundTiesToEven_def)
  have d: "fl (8865353597186015 / 2 ^ 52 / 3) = 5910235731457343 / 2 ^ 53"
    by (subst fl_normal [where k = 53]) (simp_all add: roundTiesToEven_def)
  show ?thesis
    by (simp only: list.map mean64_three inches_1 inches_3 a b c d)
qed

lemma validSamples64_example:
  "validSamples64 3 (ultrasonic_init (\<lambda>k. [58, 58, 174] ! k)) = [1, 1, 3]"
proof -
  have t3: "toInt32 3 = 3" by (simp add: toInt32_def)
  show ?thesis
    by (simp add: validSamples64_def t3 ultrasonic_init_def feed_def toCm64_def upt_rec
        fl_small_ints)
qed

section \<open>Properties of the specification\<close>


text \<open>
  C7. Whatever number is passed, integer or not, in range or not, \<open>setMaxMicros\<close>
  stores a timeout within [3000, 40000] and \<open>setTiming\<close> stores a timeout within
  [15000, 60000] and a settle time within [100, 2000]; so every stored timeout lies
  within [3000, 60000]. The values the variables start with lie in these intervals too.
\<close>

theorem timing_always_in_range:
  "3000 \<le> maxUs (setMaxMicros m s) \<and> maxUs (setMaxMicros m s) \<le> 40000
   \<and> maxUs (setMaxMicros m s) \<le> 60000
   \<and> 15000 \<le> maxUs33 (setTiming m t r) \<and> 3000 \<le> maxUs33 (setTiming m t r)
   \<and> maxUs33 (setTiming m t r) \<le> 60000
   \<and> 100 \<le> settleUs33 (setTiming m t r) \<and> settleUs33 (setTiming m t r) \<le> 2000
   \<and> maxUs (ultrasonic_init ps) = 25000
   \<and> maxUs33 (ultrasonic33_init ps) = 40000 \<and> settleUs33 (ultrasonic33_init ps) = 600"
  by (simp add: setMaxMicros_def setTiming_def ultrasonic_init_def ultrasonic33_init_def)
     linarith

text \<open>
  C10. Whatever durations the pulse measurements return, negative ones included, and
  whatever unit and number of samples are asked for, \<open>read\<close> and \<open>distance\<close> return
  a value that is not negative.
\<close>

theorem aggregates_never_negative:
  "0 \<le> fst (read unit samples s) \<and> 0 \<le> fst (distance unit33 samples33 r)"
proof
  have "\<forall>v \<in> set (validSamples samples s). 0 < v" by (simp add: validSamples_def)
  then show "0 \<le> fst (read unit samples s)"
    by (simp only: read_fst toUnit_nonneg mean_nonneg)
  have "\<forall>v \<in> set (fst (distance_loop samples33 0 [] r)). 0 < v"
    by (rule distance_loop_positive) simp
  then show "0 \<le> fst (distance unit33 samples33 r)"
    by (simp only: distance_fst toUnit_nonneg upperMedian_nonneg)
qed

text \<open>
  C3. \<open>read\<close> returns the arithmetic mean of the single-shot results of its batch
  that are above 0: a result of 0 (a failed measurement) enters neither the sum nor the
  divisor, and the mean of no result at all is 0. The \<open>k\<close>-th result of the batch is
  what \<open>measureOnceCm\<close> returns once \<open>k\<close> pulses of the call have been served. With
  the results 10, 0 and 20 the mean is (10 + 20) / 2 = 15, not (10 + 0 + 20) / 3.
\<close>

theorem read_mean_of_valid:
  "fst (read Centimeters samples s) =
     (let batch = map (\<lambda>k. fst (measureOnceCm (s\<lparr>served := served s + k\<rparr>)))
                    [0..<nat (max 1 (min 10 (toInt32 samples)))];
          valid = filter (\<lambda>cm. 0 < cm) batch
      in if valid = [] then 0 else sum_list valid / real (length valid))
   \<and> fst (read Centimeters 3 (ultrasonic_init (\<lambda>k. [580, 0, 1160] ! k))) = (10 + 20) / 2
   \<and> fst (read Centimeters 3 (ultrasonic_init (\<lambda>k. [580, 0, 1160] ! k))) \<noteq> (10 + 0 + 20) / 3"
proof -
  have gen: "fst (read Centimeters samples s) =
     (let batch = map (\<lambda>k. fst (measureOnceCm (s\<lparr>served := served s + k\<rparr>)))
                    [0..<nat (max 1 (min 10 (toInt32 samples)))];
          valid = filter (\<lambda>cm. 0 < cm) batch
      in if valid = [] then 0 else sum_list valid / real (length valid))"
    by (simp only: read_fst validSamples_def batch_eq Let_def mean_def toUnit_def) simp
  have t3: "toInt32 3 = 3" by (simp add: toInt32_def)
  have ex: "validSamples 3 (ultrasonic_init (\<lambda>k. [580, 0, 1160] ! k)) = [10, 20]"
    by (simp add: validSamples_def t3 ultrasonic_init_def feed_def toCm_def upt_rec)
  have "fst (read Centimeters 3 (ultrasonic_init (\<lambda>k. [580, 0, 1160] ! k))) = 15"
    by (simp add: read_fst ex mean_def toUnit_def)
  with gen show ?thesis by simp
qed

text \<open>
  C4. If every pulse measurement made during a call of \<open>read\<close>, or of \<open>distance\<close>,
  returns a duration of 0 or below, the call returns exactly 0, in either unit and for
  any number of samples. The pulse measurements of a call are those numbered from
  \<open>served\<close> before the call up to \<open>served\<close> after it.
\<close>

theorem no_echo_gives_zero:
  assumes "\<forall>k. served s \<le> k \<and> k < served (snd (read unit samples s)) \<longrightarrow> pulses s k \<le> 0"
    and "\<forall>k. served r \<le> k \<and> k < served (snd (distance unit33 samples33 r)) \<longrightarrow> pulses r k \<le> 0"
  shows "fst (read unit samples s) = 0 \<and> fst (distance unit33 samples33 r) = 0"
proof
  from assms(1) have "validSamples samples s = []" by (rule validSamples_no_echo)
  then show "fst (read unit samples s) = 0"
    by (simp add: read_fst mean_def toUnit_def)
  from assms(2) have "fst (distance_loop samples33 0 [] r) = []"
    by (intro distance_loop_all_fail) (simp add: distance_snd)
  then show "fst (distance unit33 samples33 r) = 0"
    by (simp add: distance_fst upperMedian_def toUnit_def)
qed

theorem no_echo_gives_zero_witness:
  "fst (read Inches 3 (ultrasonic_init (\<lambda>k. 0))) = 0
   \<and> fst (read Centimeters 3 (ultrasonic_init (\<lambda>k. - 1))) = 0
   \<and> fst (distance Inches 5 (ultrasonic33_init (\<lambda>k. 0))) = 0
   \<and> fst (distance Centimeters 5 (ultrasonic33_init (\<lambda>k. - 1))) = 0"
  using no_echo_gives_zero [of "ultrasonic_init (\<lambda>k. 0)" Inches 3 "ultrasonic33_init (\<lambda>k. 0)" Inches 5]
    no_echo_gives_zero [of "ultrasonic_init (\<lambda>k. - 1)" Centimeters 3
      "ultrasonic33_init (\<lambda>k. - 1)" Centimeters 5]
  by (simp add: ultrasonic_init_def ultrasonic33_init_def)

text \<open>
  C2. The samples that \<open>distance\<close> collects are all above 0, and when there is at
  least one, the centimeter value returned is the element at index \<open>n div 2\<close> of the
  \<open>n\<close> collected samples in ascending order: the upper one of the two middle elements
  when \<open>n\<close> is even, never their average. Every non-empty list \<open>xs\<close> of samples
  above 0 is collected by a call: when the next pulses are \<open>58 * x\<close> for the \<open>x\<close> of
  \<open>xs\<close> in turn, \<open>distance\<close> with \<open>length xs\<close> samples collects \<open>xs\<close> and returns
  the element at index \<open>length xs div 2\<close> of \<open>sort xs\<close>. The samples 12, 15, 9 give
  12; the samples 10, 20, 30, 40 give 30, not 25.
\<close>

theorem robust_upper_median:
  "(let vals = fst (distance_loop samples 0 [] r)
    in (\<forall>v \<in> set vals. 0 < v) \<and>
       (vals \<noteq> [] \<longrightarrow>
          fst (distance Centimeters samples r) = sort vals ! (length vals div 2)))
   \<and> (xs \<noteq> [] \<and> (\<forall>x \<in> set xs. 0 < x) \<and>
        (\<forall>j < length xs. pulses q (served q + j) = 58 * xs ! j) \<longrightarrow>
        fst (distance_loop (real (length xs)) 0 [] q) = xs \<and>
        fst (distance Centimeters (real (length xs)) q) = sort xs ! (length xs div 2))"
proof (intro conjI impI, goal_cases)
  case 1
  have "\<forall>v \<in> set (fst (distance_loop samples 0 [] r)). 0 < v"
    by (rule distance_loop_positive) simp
  then show ?case
    by (simp add: Let_def distance_fst toUnit_def upperMedian_def)
next
  case 2
  then show ?case by (simp add: distance_loop_collects)
next
  case 3
  then have "fst (distance_loop (real (length xs)) 0 [] q) = xs"
    by (simp add: distance_loop_collects)
  with 3 show ?case
    by (simp add: distance_fst toUnit_def upperMedian_def)
qed

theorem robust_upper_median_witness:
  "fst (distance Centimeters 3 (ultrasonic33_init (\<lambda>k. 58 * [12, 15, 9] ! k))) = 12
   \<and> fst (distance Centimeters 4 (ultrasonic33_init (\<lambda>k. 58 * [10, 20, 30, 40] ! k))) = 30
   \<and> fst (distance Centimeters 4 (ultrasonic33_init (\<lambda>k. 58 * [10, 20, 30, 40] ! k))) \<noteq> 25"
proof -
  have a: "fst (distance Centimeters (real (length [12, 15, 9 :: real]))
      (ultrasonic33_init (\<lambda>k. 58 * [12, 15, 9] ! k))) = sort [12, 15, 9 :: real] ! (length [12, 15, 9 :: real] div 2)"
    using robust_upper_median [of 0 "ultrasonic33_init (\<lambda>k. 0)" "[12, 15, 9]"
        "ultrasonic33_init (\<lambda>k. 58 * [12, 15, 9] ! k)"]
    by (simp add: ultrasonic33_init_def)
  have b: "fst (distance Centimeters (real (length [10, 20, 30, 40 :: real]))
      (ultrasonic33_init (\<lambda>k. 58 * [10, 20, 30, 40] ! k))) =
        sort [10, 20, 30, 40 :: real] ! (length [10, 20, 30, 40 :: real] div 2)"
    using robust_upper_median [of 0 "ultrasonic33_init (\<lambda>k. 0)" "[10, 20, 30, 40]"
        "ultrasonic33_init (\<lambda>k. 58 * [10, 20, 30, 40] ! k)"]
    by (simp add: ultrasonic33_init_def)
  from a b show ?thesis by simp
qed

text \<open>
  C1. As stated the claim fails twice. \<open>distance\<close> uses \<open>samples\<close> as it was passed:
  with 15 samples it makes 15 measurements, not 9, and with 0 samples it makes none and
  returns 0 where a call with 1 sample returns 10. And \<open>read\<close> clamps \<open>samples | 0\<close>,
  which wraps integers beyond 32 bits: 4294967301 samples make 5 measurements, not 10.
  (With every pulse lasting 580 microseconds each measurement is one pulse, so
  \<open>served\<close> counts the measurements.)
\<close>

theorem sample_count_clamp_counterexample:
  "served (snd (distance Centimeters 15 (ultrasonic33_init (\<lambda>k. 580)))) = 15
   \<and> served (snd (distance Centimeters 9 (ultrasonic33_init (\<lambda>k. 580)))) = 9
   \<and> fst (distance Centimeters 0 (ultrasonic33_init (\<lambda>k. 580))) = 0
   \<and> fst (distance Centimeters 1 (ultrasonic33_init (\<lambda>k. 580))) = 10
   \<and> served (snd (read Centimeters 4294967301 (ultrasonic_init (\<lambda>k. 580)))) = 5
   \<and> served (snd (read Centimeters 10 (ultrasonic_init (\<lambda>k. 580)))) = 10"
proof -
  have p: "\<forall>k. 0 < pulses (ultrasonic33_init (\<lambda>k. 580)) k"
    by (simp add: ultrasonic33_init_def)
  have s0: "served (ultrasonic33_init (\<lambda>k. 580)) = 0" "pulses (ultrasonic33_init (\<lambda>k. 580)) = (\<lambda>k. 580)"
    by (simp_all add: ultrasonic33_init_def)
  have u0: "served (ultrasonic_init (\<lambda>k. 580)) = 0"
    by (simp add: ultrasonic_init_def)
  have t: "toInt32 4294967301 = 5" "toInt32 10 = 10" by (simp_all add: toInt32_def)
  have d0: "fst (distance Centimeters 0 (ultrasonic33_init (\<lambda>k. 580))) = 0"
    by (simp add: distance_fst distance_all_echo(2) [OF p] feed_0 upperMedian_def toUnit_def)
  have d1: "fst (distance Centimeters 1 (ultrasonic33_init (\<lambda>k. 580))) = 10"
    by (simp add: distance_fst distance_all_echo(2) [OF p] feed_def s0 upperMedian_def toUnit_def)
  show ?thesis
    by (simp add: distance_all_echo(1) [OF p] s0 u0 read_served t d0 d1)
qed

text \<open>
  C1, amended. For every integer \<open>n\<close> of the signed 32-bit range, \<open>read\<close> makes
  exactly \<open>max 1 (min 10 n)\<close> single-shot measurements (each is one pulse measurement)
  and returns the same result and state as the call with the clamped number of
  samples; 0 samples behave as 1 and 15 samples as 10.
\<close>

theorem read_sample_count_clamped:
  assumes "- (2 ^ 31) \<le> n" and "n < 2 ^ 31"
  shows "served (snd (read unit (real_of_int n) s)) = served s + nat (max 1 (min 10 n))
    \<and> read unit (real_of_int n) s = read unit (real_of_int (max 1 (min 10 n))) s
    \<and> read unit 0 s = read unit 1 s
    \<and> read unit 15 s = read unit 10 s"
proof -
  from assms have t: "toInt32 (real_of_int n) = n" by (rule toInt32_of_int)
  have z: "toInt32 0 = 0" and f: "toInt32 15 = 15" by (simp_all add: toInt32_def)
  have "read unit 0 s = read unit 1 s"
    using read_clamped [of unit 0 s] by (simp add: z)
  moreover have "read unit 15 s = read unit 10 s"
    using read_clamped [of unit 15 s] by (simp add: f)
  moreover have "read unit (real_of_int n) s = read unit (real_of_int (max 1 (min 10 n))) s"
    using read_clamped [of unit "real_of_int n" s] by (simp only: t)
  moreover have "served (snd (read unit (real_of_int n) s)) = served s + nat (max 1 (min 10 n))"
    by (simp only: read_served t)
  ultimately show ?thesis by (intro conjI)
qed

theorem read_sample_count_clamped_witness:
  "served (snd (read Centimeters 0 (ultrasonic_init (\<lambda>k. 580)))) = 1
   \<and> served (snd (read Centimeters 15 (ultrasonic_init (\<lambda>k. 580)))) = 10
   \<and> served (snd (read Inches 7 (ultrasonic_init (\<lambda>k. 580)))) = 7"
  using read_sample_count_clamped [of 0 Centimeters "ultrasonic_init (\<lambda>k. 580)", THEN conjunct1]
    read_sample_count_clamped [of 15 Centimeters "ultrasonic_init (\<lambda>k. 580)", THEN conjunct1]
    read_sample_count_clamped [of 7 Inches "ultrasonic_init (\<lambda>k. 580)", THEN conjunct1]
  by (simp add: ultrasonic_init_def)

text \<open>
  C6. One robust measurement makes between one and four pulse measurements, in this
  order: HIGH after the 30 microsecond trigger and the settle delay; LOW if the first
  returned 0 or below; HIGH after one re-trigger of 20 microseconds if the second did
  too; LOW if the third did too. A later attempt is made only when all the earlier ones
  returned 0 or below, there is no fifth attempt, and when all four return 0 or below
  the measurement returns 0.
\<close>

theorem robust_ladder:
  "(let d1 = pulses s (served s); d2 = pulses s (served s + 1);
        d3 = pulses s (served s + 2); d4 = pulses s (served s + 3);
        hi = EvPulseIn (echo33 s) High (maxUs33 s);
        lo = EvPulseIn (echo33 s) Low (maxUs33 s);
        s' = snd (measureOnceCmRobust s);
        n = served s' - served s
    in n = (if 0 < d1 then 1 else if 0 < d2 then 2 else if 0 < d3 then 3 else 4)
       \<and> 1 \<le> n \<and> n \<le> 4
       \<and> trace s' = trace s @ trigger33 s @ [hi] @ (if 2 \<le> n then [lo] else []) @
           (if 3 \<le> n then retrigger33 s @ [hi] else []) @ (if 4 \<le> n then [lo] else [])
       \<and> (d1 \<le> 0 \<and> d2 \<le> 0 \<and> d3 \<le> 0 \<and> d4 \<le> 0 \<longrightarrow> fst (measureOnceCmRobust s) = 0))"
  by (simp add: Let_def robust_served robust_trace robust_fst not_less)

theorem robust_ladder_witness:
  "fst (measureOnceCmRobust (ultrasonic33_init (\<lambda>k. 0))) = 0
   \<and> served (snd (measureOnceCmRobust (ultrasonic33_init (\<lambda>k. 0)))) = 4
   \<and> trace (snd (measureOnceCmRobust (ultrasonic33_init (\<lambda>k. 0)))) =
      [EvWrite P1 0, EvWaitMicros 4, EvWrite P1 1, EvWaitMicros 30, EvWrite P1 0,
       EvWaitMicros 600, EvPulseIn P2 High 40000, EvPulseIn P2 Low 40000,
       EvWaitMicros 200, EvWrite P1 1, EvWaitMicros 20, EvWrite P1 0,
       EvWaitMicros 600, EvPulseIn P2 High 40000, EvPulseIn P2 Low 40000]"
  using robust_ladder [of "ultrasonic33_init (\<lambda>k. 0)"]
  by (simp add: Let_def ultrasonic33_init_def trigger33_def retrigger33_def)

text \<open>
  C8. As stated the claim fails for a threshold that is not an integer: the threshold
  is truncated by \<open>threshold | 0\<close> before it is clamped. Registered with 10.7, the
  watcher stores 10; a measurement of 10.5 cm (609 microseconds) is above 0 and below
  10.7 clamped to [2, 400], and the round with the stored threshold does not call the
  handler: after the measurement it only pauses.
\<close>

theorem watcher_threshold_counterexample:
  "fst (last (tasks (onDistanceLessThan (107 / 10) 0 (ultrasonic_init (\<lambda>k. 609))))) = 10
   \<and> fst (distanceCm (onDistanceLessThan (107 / 10) 0 (ultrasonic_init (\<lambda>k. 609)))) = 21 / 2
   \<and> (0 :: number) < 21 / 2 \<and> (21 / 2 :: number) < max 2 (min 400 (107 / 10))
   \<and> drop (length (trace (snd (distanceCm
                (onDistanceLessThan (107 / 10) 0 (ultrasonic_init (\<lambda>k. 609)))))))
        (trace (watch_round 10 0
                (onDistanceLessThan (107 / 10) 0 (ultrasonic_init (\<lambda>k. 609))))) =
      [EvPause 50]"
proof -
  have t: "toInt32 1 = 1" "toInt32 (107 / 10) = 10" by (simp_all add: toInt32_def)
  have cm: "fst (distanceCm (onDistanceLessThan (107 / 10) 0 (ultrasonic_init (\<lambda>k. 609)))) = 21 / 2"
    by (simp add: distanceCm_def read_fst validSamples_def t feed_def ultrasonic_init_def
        toUnit_def mean_def toCm_def)
  show ?thesis
    by (simp add: cm onDistanceLessThan_tasks bor0_def t watch_round_trace)
qed

text \<open>
  C8, amended. A watcher registered with \<open>threshold\<close> stores the threshold truncated
  to a 32-bit integer and then clamped to [2, 400]. In every round, from whatever state
  the round starts, the handler is called, once and with the measured distance \<open>cm\<close>,
  if and only if \<open>cm > 0\<close> and \<open>cm\<close> is strictly below the stored threshold; it is not
  called when the measurement is 0 or when \<open>cm\<close> equals or exceeds the stored
  threshold. After the measurement the round adds the handler call, if any, and the
  pause of 50 ms, and nothing else.
\<close>

theorem watcher_fires_below_threshold:
  "(let stored = max 2 (min 400 (real_of_int (toInt32 threshold)));
        cm = fst (distanceCm u);
        fired = drop (length (trace (snd (distanceCm u)))) (trace (watch_round stored handler u))
    in tasks (onDistanceLessThan threshold handler s) = tasks s @ [(stored, handler)]
       \<and> 2 \<le> stored \<and> stored \<le> 400
       \<and> fired = (if 0 < cm \<and> cm < stored then [EvHandler handler cm, EvPause 50]
                   else [EvPause 50])
       \<and> (EvHandler handler cm \<in> set fired) = (0 < cm \<and> cm < stored)
       \<and> (cm = 0 \<or> stored \<le> cm \<longrightarrow> (\<forall>x. EvHandler handler x \<notin> set fired)))"
proof -
  have b: "2 \<le> max 2 (min 400 (real_of_int (toInt32 threshold)))"
    "max 2 (min 400 (real_of_int (toInt32 threshold))) \<le> 400"
    by simp_all
  show ?thesis
    by (simp add: Let_def b onDistanceLessThan_tasks watch_round_trace bor0_def)
qed

theorem watcher_fires_below_threshold_witness:
  "drop (length (trace (snd (distanceCm (ultrasonic_init (\<lambda>k. 0))))))
     (trace (watch_round 10 0 (ultrasonic_init (\<lambda>k. 0)))) = [EvPause 50]
   \<and> drop (length (trace (snd (distanceCm (ultrasonic_init (\<lambda>k. 290))))))
     (trace (watch_round 10 0 (ultrasonic_init (\<lambda>k. 290)))) = [EvHandler 0 5, EvPause 50]
   \<and> drop (length (trace (snd (distanceCm (ultrasonic_init (\<lambda>k. 580))))))
     (trace (watch_round 10 0 (ultrasonic_init (\<lambda>k. 580)))) = [EvPause 50]"
proof -
  have t: "toInt32 1 = 1" "toInt32 10 = 10" by (simp_all add: toInt32_def)
  have cm: "fst (distanceCm (ultrasonic_init (\<lambda>k. d))) = toCm d" for d
    by (simp add: distanceCm_def read_fst validSamples_def t feed_def ultrasonic_init_def
        toUnit_def mean_def toCm_def)
  show ?thesis
    using watcher_fires_below_threshold [where threshold = 10 and handler = 0
        and s = "ultrasonic_init (\<lambda>k. 0)" and u = "ultrasonic_init (\<lambda>k. 0)"]
      watcher_fires_below_threshold [where threshold = 10 and handler = 0
        and s = "ultrasonic_init (\<lambda>k. 0)" and u = "ultrasonic_init (\<lambda>k. 290)"]
      watcher_fires_below_threshold [where threshold = 10 and handler = 0
        and s = "ultrasonic_init (\<lambda>k. 0)" and u = "ultrasonic_init (\<lambda>k. 580)"]
    by (simp add: Let_def cm toCm_def t)
qed

text \<open>
  C9. As stated the claim fails for the mean in the double arithmetic of the program.
  With pulses of 58, 58 and 174 microseconds the valid samples are 1, 1 and 3 cm.
  \<open>read\<close> in inches returns \<open>5910235731457344 / 2 ^ 53\<close> (0.6561679790026247), the
  rounded mean divided by 2.54; the mean of the three samples each divided by 2.54 is
  \<open>5910235731457343 / 2 ^ 53\<close> (0.6561679790026246), one unit in the last place below.
\<close>

theorem inches_mean_counterexample:
  "validSamples64 3 (ultrasonic_init (\<lambda>k. [58, 58, 174] ! k)) = [1, 1, 3]
   \<and> fst (read64 Inches 3 (ultrasonic_init (\<lambda>k. [58, 58, 174] ! k))) =
       5910235731457344 / 2 ^ 53
   \<and> mean64 (map (\<lambda>cm. fl (cm / c254)) [1, 1, 3]) = 5910235731457343 / 2 ^ 53
   \<and> fst (read64 Inches 3 (ultrasonic_init (\<lambda>k. [58, 58, 174] ! k))) \<noteq>
       mean64 (map (\<lambda>cm. fl (cm / c254))
         (validSamples64 3 (ultrasonic_init (\<lambda>k. [58, 58, 174] ! k))))"
proof -
  have r: "fst (read64 Inches 3 (ultrasonic_init (\<lambda>k. [58, 58, 174] ! k))) =
      5910235731457344 / 2 ^ 53"
    by (simp add: read64_fst validSamples64_example toUnit64_def inches_of_mean_113)
  have ne: "(5910235731457344 / 2 ^ 53 :: real) \<noteq> 5910235731457343 / 2 ^ 53" by simp
  show ?thesis
    by (simp only: r validSamples64_example mean_of_inches_113 ne not_False_eq_True simp_thms)
qed

text \<open>
  C9, amended. The conversion to inches is one division by 2.54 of the aggregated
  centimeter value, and the state after the call is the same in both units. For the
  robust variant the division commutes with the aggregation, also in double arithmetic:
  the inch value of \<open>distance\<close> is the upper median of the collected samples each
  divided by 2.54, and so it is for every list of samples above 0, because the rounded
  division does not change the order. For the standard variant the mean divided by
  2.54 equals the mean of the samples each divided by 2.54 in exact arithmetic; in
  double arithmetic the two agree up to rounding: for 1 to 10 samples, each between
  \<open>2 powi -1000\<close> and \<open>2 ^ 1000\<close>, either value differs from the exact one by at most
  the fraction \<open>2 ^ -48\<close> of it.
\<close>

theorem inches_once_up_to_rounding:
  "fst (read64 Inches samples s) = fl (fst (read64 Centimeters samples s) / c254)
   \<and> snd (read64 Inches samples s) = snd (read64 Centimeters samples s)
   \<and> fst (read64 Centimeters samples s) = mean64 (validSamples64 samples s)
   \<and> fst (distance64 Inches samples33 r) = fl (fst (distance64 Centimeters samples33 r) / c254)
   \<and> snd (distance64 Inches samples33 r) = snd (distance64 Centimeters samples33 r)
   \<and> fst (distance64 Inches samples33 r) =
       upperMedian (map (\<lambda>cm. fl (cm / c254)) (fst (distance_loop64 samples33 0 [] r)))
   \<and> ((\<forall>x \<in> set xs. 0 < x) \<longrightarrow>
        fl (upperMedian xs / c254) = upperMedian (map (\<lambda>cm. fl (cm / c254)) xs))
   \<and> mean xs / 2.54 = mean (map (\<lambda>cm. cm / 2.54) xs)
   \<and> (xs \<noteq> [] \<and> length xs \<le> 10 \<and> (\<forall>x \<in> set xs. 2 powi (- 1000) \<le> x \<and> x \<le> 2 ^ 1000) \<longrightarrow>
        \<bar>fl (mean64 xs / c254) - mean xs / 2.54\<bar> \<le> mean xs / 2.54 / 2 ^ 48 \<and>
        \<bar>mean64 (map (\<lambda>cm. fl (cm / c254)) xs) - mean xs / 2.54\<bar> \<le> mean xs / 2.54 / 2 ^ 48)"
proof (intro conjI impI)
  show "fst (read64 Inches samples s) = fl (fst (read64 Centimeters samples s) / c254)"
    by (simp add: read64_fst toUnit64_def)
  show "snd (read64 Inches samples s) = snd (read64 Centimeters samples s)"
    by (simp only: read64_snd)
  show "fst (read64 Centimeters samples s) = mean64 (validSamples64 samples s)"
    by (simp add: read64_fst toUnit64_def)
  show "fst (distance64 Inches samples33 r) = fl (fst (distance64 Centimeters samples33 r) / c254)"
    by (simp add: distance64_fst toUnit64_def)
  show "snd (distance64 Inches samples33 r) = snd (distance64 Centimeters samples33 r)"
    by (simp only: distance64_snd)
  have pos: "\<forall>v \<in> set (fst (distance_loop64 samples33 0 [] r)). 0 < v"
    by (rule distance_loop64_positive) simp
  show "fst (distance64 Inches samples33 r) =
       upperMedian (map (\<lambda>cm. fl (cm / c254)) (fst (distance_loop64 samples33 0 [] r)))"
  proof (cases "fst (distance_loop64 samples33 0 [] r) = []")
    case True
    then show ?thesis by (simp add: distance64_fst upperMedian_def)
  next
    case False
    with upperMedian_fl [OF pos] show ?thesis by (simp add: distance64_fst toUnit64_def)
  qed
  show "mean xs / 2.54 = mean (map (\<lambda>cm. cm / 2.54) xs)"
    by (rule mean_scaled [symmetric])
next
  assume "\<forall>x \<in> set xs. 0 < x"
  then show "fl (upperMedian xs / c254) = upperMedian (map (\<lambda>cm. fl (cm / c254)) xs)"
    by (rule upperMedian_fl)
next
  assume a: "xs \<noteq> [] \<and> length xs \<le> 10 \<and> (\<forall>x \<in> set xs. 2 powi (- 1000) \<le> x \<and> x \<le> 2 ^ 1000)"
  then show "\<bar>fl (mean64 xs / c254) - mean xs / 2.54\<bar> \<le> mean xs / 2.54 / 2 ^ 48"
    by (intro inches_mean_tolerance(1)) simp_all
next
  assume a: "xs \<noteq> [] \<and> length xs \<le> 10 \<and> (\<forall>x \<in> set xs. 2 powi (- 1000) \<le> x \<and> x \<le> 2 ^ 1000)"
  then show "\<bar>mean64 (map (\<lambda>cm. fl (cm / c254)) xs) - mean xs / 2.54\<bar> \<le> mean xs / 2.54 / 2 ^ 48"
    by (intro inches_mean_tolerance(2)) simp_all
qed

theorem inches_once_up_to_rounding_witness:
  "fl (upperMedian [1, 1, 3] / c254) = upperMedian (map (\<lambda>cm. fl (cm / c254)) [1, 1, 3])
   \<and> \<bar>fl (mean64 [1, 1, 3] / c254) - mean [1, 1, 3] / 2.54\<bar> \<le> mean [1, 1, 3] / 2.54 / 2 ^ 48
   \<and> \<bar>mean64 (map (\<lambda>cm. fl (cm / c254)) [1, 1, 3]) - mean [1, 1, 3] / 2.54\<bar>
       \<le> mean [1, 1, 3] / 2.54 / 2 ^ 48"
proof -
  have h1: "\<forall>x \<in> set [1, 1, 3 :: real]. 0 < x" by simp
  have h2: "[1, 1, 3 :: real] \<noteq> [] \<and> length [1, 1, 3 :: real] \<le> 10 \<and>
      (\<forall>x \<in> set [1, 1, 3 :: real]. 2 powi (- 1000) \<le> x \<and> x \<le> 2 ^ 1000)"
    by simp
  note t = inches_once_up_to_rounding [of 3 "ultrasonic_init (\<lambda>k. 58)" 3
      "ultrasonic33_init (\<lambda>k. 58)" "[1, 1, 3]"]
  from t have m: "(\<forall>x \<in> set [1, 1, 3 :: real]. 0 < x) \<longrightarrow>
      fl (upperMedian [1, 1, 3] / c254) = upperMedian (map (\<lambda>cm. fl (cm / c254)) [1, 1, 3])"
    by blast
  from t have e: "[1, 1, 3 :: real] \<noteq> [] \<and> length [1, 1, 3 :: real] \<le> 10 \<and>
      (\<forall>x \<in> set [1, 1, 3 :: real]. 2 powi (- 1000) \<le> x \<and> x \<le> 2 ^ 1000) \<longrightarrow>
        \<bar>fl (mean64 [1, 1, 3] / c254) - mean [1, 1, 3] / 2.54\<bar> \<le> mean [1, 1, 3] / 2.54 / 2 ^ 48 \<and>
        \<bar>mean64 (map (\<lambda>cm. fl (cm / c254)) [1, 1, 3]) - mean [1, 1, 3] / 2.54\<bar>
          \<le> mean [1, 1, 3] / 2.54 / 2 ^ 48"
    by blast
  from m h1 e h2 show ?thesis by blast
qed

end
